theory Spec2Isabelle
  imports Main "HOL-Library.Sublist"
begin

chapter \<open>Music bot: the per-guild playback sequencer of \<^verbatim>\<open>music_bot.py\<close>\<close>

text \<open>
  The development embeds the module \<^verbatim>\<open>src/music_bot.py\<close>: the duration formatter, the
  global queue table \<^verbatim>\<open>music_queues\<close>, the coroutine \<^verbatim>\<open>start_next_song\<close> with its
  completion callback \<^verbatim>\<open>_after_play\<close>, and the slash commands \<^verbatim>\<open>play\<close>, \<^verbatim>\<open>skip\<close>,
  \<^verbatim>\<open>stop\<close> and \<^verbatim>\<open>leave\<close>.  Mutation of the module state is explicit state passing over
  a record of that state; the calls into discord.py and yt-dlp are parameters.
\<close>

section \<open>The duration formatter\<close>

subsection \<open>Text of integers, as Python's \<^verbatim>\<open>str\<close> and the format spec \<^verbatim>\<open>02d\<close> produce it\<close>

definition digit_char :: "nat \<Rightarrow> char" where
  "digit_char d = ''0123456789'' ! d"

text \<open>Decimal digits of a natural number, most significant first, no leading zero.\<close>

fun str_nat :: "nat \<Rightarrow> string" where
  "str_nat n =
     (if n < 10 then [digit_char n] else str_nat (n div 10) @ [digit_char (n mod 10)])"

declare str_nat.simps [simp del]

text \<open>\<^verbatim>\<open>str(i)\<close> and the plain replacement field \<^verbatim>\<open>{i}\<close> of an f-string.\<close>

definition str_int :: "int \<Rightarrow> string" where
  "str_int i = (if i < 0 then CHR ''-'' # str_nat (nat (- i)) else str_nat (nat i))"

text \<open>
  The replacement field \<^verbatim>\<open>{i:02d}\<close>: the decimal text filled with zeros on the left up
  to width 2.  A negative number already has width 2 with its sign, so it gets no zero.
\<close>

definition fmt_02d :: "int \<Rightarrow> string" where
  "fmt_02d i = (let s = str_int i in replicate (2 - length s) CHR ''0'' @ s)"

text \<open>\<^verbatim>\<open>divmod(a, b)\<close> for a positive divisor: floor division, as \<open>div\<close> and \<open>mod\<close> on \<open>int\<close>.\<close>

definition py_divmod :: "int \<Rightarrow> int \<Rightarrow> int \<times> int" where
  "py_divmod a b = (a div b, a mod b)"

subsection \<open>\<^verbatim>\<open>format_duration\<close> (lines 65 to 72)\<close>

text \<open>
  The argument is \<^verbatim>\<open>int | None\<close>, as the annotation says; a fractional duration is
  not represented.  \<^verbatim>\<open>not seconds\<close> holds for \<^verbatim>\<open>None\<close> and for \<^verbatim>\<open>0\<close>; \<^verbatim>\<open>if h\<close>
  holds for every \<open>h\<close> but \<open>0\<close>.
\<close>

definition format_duration :: "int option \<Rightarrow> string" where
  "format_duration seconds =
     (case seconds of
        None \<Rightarrow> ''unknown''
      | Some n \<Rightarrow>
          if n = 0 then ''unknown''
          else
            let (m, s) = py_divmod n 60;
                (h, m) = py_divmod m 60
            in if h \<noteq> 0 then str_int h @ '':'' @ fmt_02d m @ '':'' @ fmt_02d s
               else str_int m @ '':'' @ fmt_02d s)"

subsection \<open>Reading a displayed number back\<close>

text \<open>
  What a reader of the message sees: a text is the decimal notation of \<open>k\<close> when it is a
  non-empty run of digit characters whose value is \<open>k\<close>; a two-digit field has exactly
  two characters.
\<close>

definition digit_val :: "char \<Rightarrow> nat" where
  "digit_val c = of_char c - 48"

definition dec_val :: "string \<Rightarrow> nat" where
  "dec_val cs = foldl (\<lambda>a c. 10 * a + digit_val c) 0 cs"

definition is_digit :: "char \<Rightarrow> bool" where
  "is_digit c \<longleftrightarrow> c \<in> set ''0123456789''"

definition is_decimal :: "string \<Rightarrow> nat \<Rightarrow> bool" where
  "is_decimal cs k \<longleftrightarrow> cs \<noteq> [] \<and> list_all is_digit cs \<and> dec_val cs = k"

definition is_two_digits :: "string \<Rightarrow> nat \<Rightarrow> bool" where
  "is_two_digits cs k \<longleftrightarrow> length cs = 2 \<and> is_decimal cs k"

section \<open>The module state\<close>

subsection \<open>Data (lines 48 to 62)\<close>

text \<open>
  Guild and channel identifiers are Python integers.  An exception is represented by its
  message, a user by the display name.
\<close>

type_synonym guild_id = int
type_synonym channel_id = int
type_synonym user = string
type_synonym exn = string

text \<open>
  The dataclass \<^verbatim>\<open>Song\<close>.  The field \<^verbatim>\<open>duration\<close> is filled from
  \<^verbatim>\<open>info.get("duration", 0)\<close> and handed to \<^verbatim>\<open>format_duration\<close>, whose parameter is
  \<^verbatim>\<open>int | None\<close>.
\<close>

record Song =
  url :: string
  title :: string
  webpage_url :: string
  duration :: "int option"
  audio_url :: string
  requested_by :: user

text \<open>
  What the module reads of a \<^verbatim>\<open>discord.VoiceClient\<close>: the answers of \<^verbatim>\<open>is_connected()\<close>,
  \<^verbatim>\<open>is_playing()\<close> and \<^verbatim>\<open>is_paused()\<close>, its \<^verbatim>\<open>channel\<close>, and the audio source handed
  to \<^verbatim>\<open>play\<close> (the track that sounds).  The three answers are independent fields, as
  they are independent methods of the class.
\<close>

record VoiceClient =
  is_connected :: bool
  is_playing :: bool
  is_paused :: bool
  channel :: channel_id
  source :: "Song option"

record Guild =
  name :: string
  voice_client :: "VoiceClient option"

text \<open>The lines the module prints (lines 128, 140, 146 and 148).\<close>

datatype line =
    PlayerError guild_id exn
  | ErrorStartingNextSong exn
  | NowPlayingIn string string
  | ErrorStartingPlayback exn

text \<open>
  The state the functions read and write: the global dictionary \<^verbatim>\<open>music_queues\<close>
  (line 58), the guilds the bot knows (\<^verbatim>\<open>bot.get_guild\<close>) with their voice clients, and
  the printed output.  The module holds no lock; every function below is one sequential
  run on this state.
\<close>

record world =
  music_queues :: "guild_id \<rightharpoonup> Song list"
  guilds :: "guild_id \<rightharpoonup> Guild"
  console :: "line list"

text \<open>
  The calls into discord.py and yt-dlp that the module guards with \<^verbatim>\<open>try\<close>: what
  \<^verbatim>\<open>voice_client.play\<close> raises for the source of a track (\<open>None\<close>: playback starts),
  what \<^verbatim>\<open>connect\<close> and \<^verbatim>\<open>move_to\<close> raise, and the outcome of \<^verbatim>\<open>fetch_song\<close>
  (lines 75 to 101, a wrapper around yt-dlp).  A call that raises leaves the state as
  it was.  Constructing the FFmpeg source (line 142) is taken to succeed.
\<close>

record env =
  play_raises :: "Song \<Rightarrow> exn option"
  connect_raises :: "channel_id \<Rightarrow> exn option"
  move_to_raises :: "channel_id \<Rightarrow> exn option"
  fetch_song :: "string \<Rightarrow> user \<Rightarrow> exn + Song"

text \<open>
  \<^verbatim>\<open>get_queue\<close> (lines 61 and 62) is \<^verbatim>\<open>music_queues.setdefault(guild_id, [])\<close>: it
  registers an empty list for a guild that has none, and returns the list.  The caller
  mutates the returned list in place; \<open>set_queue\<close> is that mutation, written back under
  the guild's key.
\<close>

definition get_queue :: "guild_id \<Rightarrow> world \<Rightarrow> Song list \<times> world" where
  "get_queue guild_id w =
     (case music_queues w guild_id of
        Some q \<Rightarrow> (q, w)
      | None \<Rightarrow> ([], w\<lparr>music_queues := (music_queues w)(guild_id \<mapsto> [])\<rparr>))"

definition set_queue :: "guild_id \<Rightarrow> Song list \<Rightarrow> world \<Rightarrow> world" where
  "set_queue guild_id q w = w\<lparr>music_queues := (music_queues w)(guild_id \<mapsto> q)\<rparr>"

definition print_line :: "line \<Rightarrow> world \<Rightarrow> world" where
  "print_line l w = w\<lparr>console := console w @ [l]\<rparr>"

definition set_voice_client :: "guild_id \<Rightarrow> VoiceClient option \<Rightarrow> world \<Rightarrow> world" where
  "set_voice_client guild_id v w =
     (case guilds w guild_id of
        None \<Rightarrow> w
      | Some g \<Rightarrow> w\<lparr>guilds := (guilds w)(guild_id \<mapsto> g\<lparr>voice_client := v\<rparr>)\<rparr>)"

subsection \<open>The voice client of discord.py\<close>

text \<open>
  The effect of the library calls on what the module can observe: a started \<^verbatim>\<open>play\<close>
  makes the client playing with that source; \<^verbatim>\<open>stop\<close> drops the player; \<^verbatim>\<open>connect\<close>
  yields a connected, silent client on the channel.  Nothing is assumed of the client
  at the moment the library calls the \<^verbatim>\<open>after\<close> callback: a player that gave up on a
  lost connection still reports playing then.
\<close>

definition vc_play :: "Song \<Rightarrow> VoiceClient \<Rightarrow> VoiceClient" where
  "vc_play song vc = vc\<lparr>is_playing := True, is_paused := False, source := Some song\<rparr>"

definition vc_stop :: "VoiceClient \<Rightarrow> VoiceClient" where
  "vc_stop vc = vc\<lparr>is_playing := False, is_paused := False, source := None\<rparr>"

definition connected_client :: "channel_id \<Rightarrow> VoiceClient" where
  "connected_client ch =
     \<lparr>is_connected = True, is_playing = False, is_paused = False, channel = ch, source = None\<rparr>"

subsection \<open>What an observer sees of one guild\<close>

definition queue_of :: "guild_id \<Rightarrow> world \<Rightarrow> Song list" where
  "queue_of guild_id w = (case music_queues w guild_id of None \<Rightarrow> [] | Some q \<Rightarrow> q)"

definition sink_of :: "guild_id \<Rightarrow> world \<Rightarrow> VoiceClient option" where
  "sink_of guild_id w = (case guilds w guild_id of None \<Rightarrow> None | Some g \<Rightarrow> voice_client g)"

definition sink_busy :: "guild_id \<Rightarrow> world \<Rightarrow> bool" where
  "sink_busy guild_id w =
     (case sink_of guild_id w of None \<Rightarrow> False | Some vc \<Rightarrow> is_playing vc \<or> is_paused vc)"

definition sounding :: "guild_id \<Rightarrow> world \<Rightarrow> Song option" where
  "sounding guild_id w = (case sink_of guild_id w of None \<Rightarrow> None | Some vc \<Rightarrow> source vc)"

definition rejected :: "env \<Rightarrow> Song \<Rightarrow> bool" where
  "rejected e s \<longleftrightarrow> play_raises e s \<noteq> None"

section \<open>The sequencer\<close>

subsection \<open>\<^verbatim>\<open>start_next_song\<close> (lines 104 to 152)\<close>

text \<open>
  The branches in the order of the source: unknown guild; empty queue; no voice client
  or a client that is not connected, where the queue is cleared; a client that is
  playing or paused; otherwise \<^verbatim>\<open>voice_client.play\<close> on the head of the queue.  When
  \<^verbatim>\<open>play\<close> raises, the error is printed, the head is removed if it still is the track
  that was tried, and the function calls itself.  Every recursive call has a shorter
  queue, which is the termination argument.
\<close>

function start_next_song :: "env \<Rightarrow> guild_id \<Rightarrow> world \<Rightarrow> world" where
  "start_next_song e guild_id w =
     (case guilds w guild_id of
        None \<Rightarrow> w
      | Some guild \<Rightarrow>
          (case get_queue guild_id w of (queue, w1) \<Rightarrow>
             if queue = [] then w1
             else
               (case voice_client guild of
                  None \<Rightarrow> set_queue guild_id [] w1
                | Some vc \<Rightarrow>
                    if \<not> is_connected vc then set_queue guild_id [] w1
                    else if is_playing vc \<or> is_paused vc then w1
                    else
                      let song = hd queue in
                      (case play_raises e song of
                         None \<Rightarrow>
                           print_line (NowPlayingIn (name guild) (title song))
                             (set_voice_client guild_id (Some (vc_play song vc)) w1)
                       | Some exc \<Rightarrow>
                           let w2 = print_line (ErrorStartingPlayback exc) w1;
                               w3 = (if queue \<noteq> [] \<and> hd queue = song
                                     then set_queue guild_id (tl queue) w2 else w2)
                           in start_next_song e guild_id w3))))"
  by pat_completeness auto
termination
  apply (relation "measure (\<lambda>(e, guild_id, w). length (queue_of guild_id w))")
   apply simp
  apply (auto simp: get_queue_def set_queue_def print_line_def queue_of_def split: option.splits)
  done

declare start_next_song.simps [simp del]

subsection \<open>\<^verbatim>\<open>_after_play\<close> (lines 126 to 140)\<close>

text \<open>
  The callback given to \<^verbatim>\<open>voice_client.play\<close>: it prints the player's error if there is
  one, removes the head of the guild's queue if the queue is not empty, and runs
  \<^verbatim>\<open>start_next_song\<close> once, waiting for its result.  A delivery of the completion
  signal is a call of this function, with the player's error or with \<^verbatim>\<open>None\<close>; the
  function reads the voice client only through \<^verbatim>\<open>start_next_song\<close> and never writes
  to it.  \<open>start_next_song\<close> has no raising
  path here, so the \<^verbatim>\<open>except\<close> of lines 139 and 140 is not reached.
\<close>

definition after_play :: "env \<Rightarrow> guild_id \<Rightarrow> exn option \<Rightarrow> world \<Rightarrow> world" where
  "after_play e guild_id error w =
     (let w1 = (case error of None \<Rightarrow> w | Some err \<Rightarrow> print_line (PlayerError guild_id err) w) in
      case get_queue guild_id w1 of (q, w2) \<Rightarrow>
        let w3 = (if q \<noteq> [] then set_queue guild_id (tl q) w2 else w2)
        in start_next_song e guild_id w3)"

section \<open>The slash commands\<close>

text \<open>
  A reply is the message and its \<^verbatim>\<open>ephemeral\<close> flag.  The messages in the order of the
  source: the four refusals and the two answers of \<^verbatim>\<open>play\<close> (a title, a link and the
  formatted duration; the queue position), then the messages of \<^verbatim>\<open>skip\<close>, \<^verbatim>\<open>stop\<close>
  and \<^verbatim>\<open>leave\<close>.
\<close>

datatype message =
    OnlyInServer
  | MustBeInVoiceChannel
  | CouldNotJoin exn
  | CouldNotGetAudio exn
  | NowPlaying string string string
  | AddedToQueue nat string string string
  | ServerOnly
  | NotInVoiceChannel
  | NothingPlaying
  | Skipped
  | Stopped
  | LeftChannel
  | NotConnected

type_synonym reply = "message \<times> bool"

text \<open>
  Of an interaction the commands read the guild it came from (none in a direct
  message), the user, and the voice channel the user is in.  \<^verbatim>\<open>interaction.guild\<close> is
  the bot's guild of that identifier.
\<close>

record Interaction =
  i_guild :: "guild_id option"
  i_user :: user
  i_voice_channel :: "channel_id option"

definition interaction_guild :: "Interaction \<Rightarrow> world \<Rightarrow> (guild_id \<times> Guild) option" where
  "interaction_guild i w =
     (case i_guild i of
        None \<Rightarrow> None
      | Some gid \<Rightarrow> (case guilds w gid of None \<Rightarrow> None | Some g \<Rightarrow> Some (gid, g)))"

subsection \<open>\<^verbatim>\<open>play_cmd\<close> (lines 186 to 236)\<close>

text \<open>Lines 205 to 213: join the user's channel, or move to it.\<close>

definition join_or_move ::
  "env \<Rightarrow> guild_id \<Rightarrow> Guild \<Rightarrow> channel_id \<Rightarrow> world \<Rightarrow> exn + VoiceClient \<times> world" where
  "join_or_move e gid g voice_channel w =
     (let connect =
            (case connect_raises e voice_channel of
               Some x \<Rightarrow> Inl x
             | None \<Rightarrow>
                 Inr (connected_client voice_channel,
                      set_voice_client gid (Some (connected_client voice_channel)) w))
      in case voice_client g of
           None \<Rightarrow> connect
         | Some vc \<Rightarrow>
             if \<not> is_connected vc then connect
             else if channel vc \<noteq> voice_channel then
               (case move_to_raises e voice_channel of
                  Some x \<Rightarrow> Inl x
                | None \<Rightarrow>
                    Inr (vc\<lparr>channel := voice_channel\<rparr>,
                         set_voice_client gid (Some (vc\<lparr>channel := voice_channel\<rparr>)) w))
             else Inr (vc, w))"

text \<open>
  Lines 222 to 236, the enqueue: append the track, then either run \<^verbatim>\<open>start_next_song\<close>
  and answer "now playing", or answer with the position \<^verbatim>\<open>len(queue)\<close>.  The test of
  line 225 reads the handler's own reference \<open>vc\<close> to the voice client, obtained before
  the track was fetched; \<^verbatim>\<open>start_next_song\<close> reads the guild's client afresh.
\<close>

definition play_cmd_enqueue ::
  "env \<Rightarrow> guild_id \<Rightarrow> VoiceClient \<Rightarrow> Song \<Rightarrow> world \<Rightarrow> reply \<times> world" where
  "play_cmd_enqueue e gid vc song w =
     (case get_queue gid w of (queue, w1) \<Rightarrow>
        let w2 = set_queue gid (queue @ [song]) w1 in
        if \<not> is_playing vc \<and> \<not> is_paused vc then
          ((NowPlaying (title song) (webpage_url song) (format_duration (duration song)), False),
           start_next_song e gid w2)
        else
          let position = length (queue_of gid w2) in
          ((AddedToQueue position (title song) (webpage_url song)
              (format_duration (duration song)), False),
           w2))"

definition play_cmd :: "env \<Rightarrow> Interaction \<Rightarrow> string \<Rightarrow> world \<Rightarrow> reply \<times> world" where
  "play_cmd e i url' w =
     (case interaction_guild i w of
        None \<Rightarrow> ((OnlyInServer, True), w)
      | Some (gid, g) \<Rightarrow>
          (case i_voice_channel i of
             None \<Rightarrow> ((MustBeInVoiceChannel, True), w)
           | Some voice_channel \<Rightarrow>
               (case join_or_move e gid g voice_channel w of
                  Inl x \<Rightarrow> ((CouldNotJoin x, True), w)
                | Inr (vc, w1) \<Rightarrow>
                    (case fetch_song e url' (i_user i) of
                       Inl x \<Rightarrow> ((CouldNotGetAudio x, True), w1)
                     | Inr song \<Rightarrow> play_cmd_enqueue e gid vc song w1))))"

text \<open>A run of enqueues with the same reference to the voice client.\<close>

definition enqueue_all :: "env \<Rightarrow> guild_id \<Rightarrow> VoiceClient \<Rightarrow> Song list \<Rightarrow> world \<Rightarrow> world" where
  "enqueue_all e gid vc songs w = foldl (\<lambda>w' s. snd (play_cmd_enqueue e gid vc s w')) w songs"

subsection \<open>\<^verbatim>\<open>skip_cmd\<close> (lines 239 to 255)\<close>

definition skip_cmd :: "Interaction \<Rightarrow> world \<Rightarrow> reply \<times> world" where
  "skip_cmd i w =
     (case interaction_guild i w of
        None \<Rightarrow> ((ServerOnly, True), w)
      | Some (gid, g) \<Rightarrow>
          (case voice_client g of
             None \<Rightarrow> ((NotInVoiceChannel, True), w)
           | Some vc \<Rightarrow>
               if \<not> is_connected vc then ((NotInVoiceChannel, True), w)
               else if \<not> is_playing vc \<and> \<not> is_paused vc then ((NothingPlaying, True), w)
               else ((Skipped, False), set_voice_client gid (Some (vc_stop vc)) w)))"

subsection \<open>\<^verbatim>\<open>stop_cmd\<close> (lines 258 to 272)\<close>

definition stop_cmd :: "Interaction \<Rightarrow> world \<Rightarrow> reply \<times> world" where
  "stop_cmd i w =
     (case interaction_guild i w of
        None \<Rightarrow> ((ServerOnly, True), w)
      | Some (gid, g) \<Rightarrow>
          (case get_queue gid w of (queue, w1) \<Rightarrow>
             let w2 = set_queue gid [] w1;
                 w3 = (case voice_client g of
                         None \<Rightarrow> w2
                       | Some vc \<Rightarrow>
                           if is_playing vc \<or> is_paused vc
                           then set_voice_client gid (Some (vc_stop vc)) w2 else w2)
             in ((Stopped, False), w3)))"

subsection \<open>\<^verbatim>\<open>leave_cmd\<close> (lines 275 to 290)\<close>

text \<open>
  The queue is cleared before the voice client is looked at.  After \<^verbatim>\<open>disconnect\<close> the
  guild has no voice client.
\<close>

definition leave_cmd :: "Interaction \<Rightarrow> world \<Rightarrow> reply \<times> world" where
  "leave_cmd i w =
     (case interaction_guild i w of
        None \<Rightarrow> ((ServerOnly, True), w)
      | Some (gid, g) \<Rightarrow>
          (case get_queue gid w of (queue, w1) \<Rightarrow>
             let w2 = set_queue gid [] w1 in
             case voice_client g of
               None \<Rightarrow> ((NotConnected, True), w2)
             | Some vc \<Rightarrow>
                 if is_connected vc then ((LeftChannel, False), set_voice_client gid None w2)
                 else ((NotConnected, True), w2)))"

subsection \<open>The printed lines and the sink after a run of \<^verbatim>\<open>start_next_song\<close>\<close>

definition error_lines :: "env \<Rightarrow> Song \<Rightarrow> line list" where
  "error_lines e s = (case play_raises e s of None \<Rightarrow> [] | Some exc \<Rightarrow> [ErrorStartingPlayback exc])"

definition started_line :: "Guild \<Rightarrow> Song list \<Rightarrow> line list" where
  "started_line g q = (case q of [] \<Rightarrow> [] | s # _ \<Rightarrow> [NowPlayingIn (name g) (title s)])"

definition started_sink :: "VoiceClient \<Rightarrow> Song list \<Rightarrow> VoiceClient" where
  "started_sink vc q = (case q of [] \<Rightarrow> vc | s # _ \<Rightarrow> vc_play s vc)"

subsection \<open>Sample states\<close>

definition track_A :: Song where
  "track_A = \<lparr>url = ''a'', title = ''A'', webpage_url = ''https://a'', duration = Some 125,
     audio_url = ''stream-a'', requested_by = ''ann''\<rparr>"

definition track_B :: Song where
  "track_B = \<lparr>url = ''b'', title = ''B'', webpage_url = ''https://b'', duration = None,
     audio_url = ''stream-b'', requested_by = ''bob''\<rparr>"

text \<open>A sink that starts every track, and one that refuses track A.\<close>

definition env_ok :: env where
  "env_ok = \<lparr>play_raises = (\<lambda>s. None), connect_raises = (\<lambda>c. None),
     move_to_raises = (\<lambda>c. None), fetch_song = (\<lambda>u r. Inr track_B)\<rparr>"

definition env_bad_A :: env where
  "env_bad_A = \<lparr>play_raises = (\<lambda>s. if s = track_A then Some ''rejected'' else None),
     connect_raises = (\<lambda>c. None), move_to_raises = (\<lambda>c. None),
     fetch_song = (\<lambda>u r. Inr track_B)\<rparr>"

text \<open>
  Voice clients on channel 7: connected and silent; playing track A; connected with the
  player of track A ended; playing track A with the connection lost; silent and not
  connected.
\<close>

definition sink_idle :: VoiceClient where
  "sink_idle = connected_client 7"

definition sink_playing_A :: VoiceClient where
  "sink_playing_A = vc_play track_A (connected_client 7)"

definition sink_ended_A :: VoiceClient where
  "sink_ended_A = (vc_play track_A (connected_client 7))\<lparr>is_playing := False\<rparr>"

definition sink_lost :: VoiceClient where
  "sink_lost = (vc_play track_A (connected_client 7))\<lparr>is_connected := False\<rparr>"

definition sink_off :: VoiceClient where
  "sink_off = (connected_client 7)\<lparr>is_connected := False\<rparr>"

text \<open>The bot in one guild, number 1, with the given queue and voice client.\<close>

definition world_of :: "Song list \<Rightarrow> VoiceClient option \<Rightarrow> world" where
  "world_of q v =
     \<lparr>music_queues = [1 \<mapsto> q], guilds = [1 \<mapsto> \<lparr>name = ''home'', voice_client = v\<rparr>],
      console = []\<rparr>"

definition in_guild_1 :: Interaction where
  "in_guild_1 = \<lparr>i_guild = Some 1, i_user = ''ann'', i_voice_channel = Some 7\<rparr>"

section \<open>Properties of the formatter\<close>

lemma digit_cases:
  assumes "d < (10::nat)"
  obtains "d = 0" | "d = 1" | "d = 2" | "d = 3" | "d = 4"
    | "d = 5" | "d = 6" | "d = 7" | "d = 8" | "d = 9"
  using assms by atomize_elim arith

lemma digit_val_digit_char: "d < 10 \<Longrightarrow> digit_val (digit_char d) = d"
  by (erule digit_cases) (simp_all add: digit_val_def digit_char_def)

lemma digit_char_is_digit: "d < 10 \<Longrightarrow> is_digit (digit_char d)"
  by (erule digit_cases) (simp_all add: digit_char_def is_digit_def)

lemma dec_val_snoc: "dec_val (cs @ [c]) = 10 * dec_val cs + digit_val c"
  by (simp add: dec_val_def)

lemma str_nat_not_Nil: "str_nat n \<noteq> []"
  by (subst str_nat.simps) simp

lemma dec_val_str_nat: "dec_val (str_nat n) = n"
proof (induction n rule: str_nat.induct)
  case (1 n)
  show ?case
  proof (cases "n < 10")
    case True
    then show ?thesis
      by (simp add: str_nat.simps[of n] dec_val_def digit_val_digit_char)
  next
    case False
    with 1 show ?thesis
      by (simp add: str_nat.simps[of n] dec_val_snoc digit_val_digit_char)
  qed
qed

lemma digits_str_nat: "list_all is_digit (str_nat n)"
proof (induction n rule: str_nat.induct)
  case (1 n)
  show ?case
  proof (cases "n < 10")
    case True
    then have "is_digit (digit_char n)"
      by (rule digit_char_is_digit)
    with True show ?thesis
      by (simp add: str_nat.simps[of n])
  next
    case False
    have "is_digit (digit_char (n mod 10))"
      by (rule digit_char_is_digit) simp
    with False 1 show ?thesis
      by (simp add: str_nat.simps[of n])
  qed
qed

lemma is_decimal_str_nat: "is_decimal (str_nat n) n"
  by (simp add: is_decimal_def str_nat_not_Nil digits_str_nat dec_val_str_nat)

lemma length_str_nat_small: "n < 10 \<Longrightarrow> length (str_nat n) = 1"
  by (simp add: str_nat.simps[of n])

lemma length_str_nat_two: "10 \<le> n \<Longrightarrow> n < 100 \<Longrightarrow> length (str_nat n) = 2"
  by (simp add: str_nat.simps[of n] length_str_nat_small)

lemma fmt_02d_two_digits:
  assumes "0 \<le> i" and "i < 100"
  shows "is_two_digits (fmt_02d i) (nat i)"
proof (cases "i < 10")
  case True
  with assms have len: "length (str_nat (nat i)) = 1"
    by (simp add: length_str_nat_small)
  have "fmt_02d i = CHR ''0'' # str_nat (nat i)"
    using assms len by (simp add: fmt_02d_def str_int_def)
  moreover have "dec_val (CHR ''0'' # str_nat (nat i)) = dec_val (str_nat (nat i))"
    by (simp add: dec_val_def digit_val_def)
  moreover have "is_digit CHR ''0''"
    by (simp add: is_digit_def)
  ultimately show ?thesis
    using len by (simp add: is_two_digits_def is_decimal_def digits_str_nat dec_val_str_nat)
next
  case False
  with assms have len: "length (str_nat (nat i)) = 2"
    by (simp add: length_str_nat_two)
  have "fmt_02d i = str_nat (nat i)"
    using assms len by (simp add: fmt_02d_def str_int_def)
  then show ?thesis
    using len is_decimal_str_nat [of "nat i"] by (simp add: is_two_digits_def)
qed

lemma format_duration_hms:
  assumes "3600 \<le> n"
  shows "format_duration (Some n) =
           str_nat (nat (n div 3600)) @ '':'' @ fmt_02d (n div 60 mod 60) @ '':'' @ fmt_02d (n mod 60)"
proof -
  have h: "n div 60 div 60 = n div 3600"
    by (simp add: div_mult2_eq [symmetric])
  moreover from assms have "0 < n div 3600"
    by (simp add: pos_imp_zdiv_pos_iff)
  ultimately show ?thesis
    using assms by (simp add: format_duration_def py_divmod_def str_int_def)
qed

lemma format_duration_ms:
  assumes "0 < n" and "n < 3600"
  shows "format_duration (Some n) = str_nat (nat (n div 60)) @ '':'' @ fmt_02d (n mod 60)"
proof -
  have "n div 60 div 60 = n div 3600"
    by (simp add: div_mult2_eq [symmetric])
  with assms have h: "n div 60 div 60 = 0"
    by simp
  from assms have "n div 60 < 60"
    by simp
  then have "n div 60 mod 60 = n div 60"
    using assms by simp
  with h show ?thesis
    using assms by (simp add: format_duration_def py_divmod_def str_int_def)
qed

text \<open>
  Claim C10.  \<^verbatim>\<open>format_duration\<close> answers \<^verbatim>\<open>unknown\<close> for a missing duration and for a
  duration of exactly 0 seconds, so a zero-length track is never shown as \<^verbatim>\<open>0:00\<close>.  For
  a positive duration \<open>n\<close> of at least 3600 seconds the text is \<^verbatim>\<open>h:mm:ss\<close>: the hours
  \<open>n div 3600\<close> in decimal, then the minutes \<open>n div 60 mod 60\<close> and the seconds
  \<open>n mod 60\<close>, each as exactly two digits.  For a positive duration below 3600 seconds it
  is \<^verbatim>\<open>m:ss\<close>: the minutes \<open>n div 60\<close> in decimal and the seconds as exactly two digits.
\<close>

theorem format_duration_display:
  "format_duration None = ''unknown'' \<and>
   format_duration (Some 0) = ''unknown'' \<and>
   format_duration (Some 0) \<noteq> ''0:00'' \<and>
   (\<forall>n. 0 < n \<longrightarrow>
      (3600 \<le> n \<longrightarrow>
         (\<exists>hs ms ss. format_duration (Some n) = hs @ '':'' @ ms @ '':'' @ ss \<and>
            is_decimal hs (nat (n div 3600)) \<and>
            is_two_digits ms (nat (n div 60 mod 60)) \<and>
            is_two_digits ss (nat (n mod 60)))) \<and>
      (n < 3600 \<longrightarrow>
         (\<exists>ms ss. format_duration (Some n) = ms @ '':'' @ ss \<and>
            is_decimal ms (nat (n div 60)) \<and>
            is_two_digits ss (nat (n mod 60)))))"
proof (intro conjI allI impI)
  show "format_duration None = ''unknown''"
    by (simp add: format_duration_def)
  show "format_duration (Some 0) = ''unknown''"
    by (simp add: format_duration_def)
  show "format_duration (Some 0) \<noteq> ''0:00''"
    by (simp add: format_duration_def)
next
  fix n :: int
  assume "0 < n" and big: "3600 \<le> n"
  have "is_two_digits (fmt_02d (n div 60 mod 60)) (nat (n div 60 mod 60))"
    by (rule fmt_02d_two_digits) simp_all
  moreover have "is_two_digits (fmt_02d (n mod 60)) (nat (n mod 60))"
    by (rule fmt_02d_two_digits) simp_all
  ultimately show "\<exists>hs ms ss. format_duration (Some n) = hs @ '':'' @ ms @ '':'' @ ss \<and>
      is_decimal hs (nat (n div 3600)) \<and>
      is_two_digits ms (nat (n div 60 mod 60)) \<and>
      is_two_digits ss (nat (n mod 60))"
    using format_duration_hms [OF big] is_decimal_str_nat [of "nat (n div 3600)"] by blast
next
  fix n :: int
  assume pos: "0 < n" and small: "n < 3600"
  have "is_two_digits (fmt_02d (n mod 60)) (nat (n mod 60))"
    by (rule fmt_02d_two_digits) simp_all
  then show "\<exists>ms ss. format_duration (Some n) = ms @ '':'' @ ss \<and>
      is_decimal ms (nat (n div 60)) \<and>
      is_two_digits ss (nat (n mod 60))"
    using format_duration_ms [OF pos small] is_decimal_str_nat [of "nat (n div 60)"] by blast
qed

text \<open>The statement above at a sample state.\<close>

theorem format_duration_display_witness:
  "format_duration (Some 3725) = ''1:02:05'' \<and>
   format_duration (Some 125) = ''2:05'' \<and>
   (\<exists>hs ms ss. format_duration (Some 3725) = hs @ '':'' @ ms @ '':'' @ ss \<and>
      is_decimal hs 1 \<and> is_two_digits ms 2 \<and> is_two_digits ss 5) \<and>
   (\<exists>ms ss. format_duration (Some 125) = ms @ '':'' @ ss \<and>
      is_decimal ms 2 \<and> is_two_digits ss 5)"
proof -
  have a: "format_duration (Some 3725) = ''1:02:05''"
    by (simp add: format_duration_def py_divmod_def str_int_def fmt_02d_def
        str_nat.simps digit_char_def)
  have b: "format_duration (Some 125) = ''2:05''"
    by (simp add: format_duration_def py_divmod_def str_int_def fmt_02d_def
        str_nat.simps digit_char_def)
  note r = format_duration_display [THEN conjunct2, THEN conjunct2, THEN conjunct2,
      THEN spec, THEN mp]
  have p1: "(0::int) < 3725" and q1: "(3600::int) \<le> 3725" by simp_all
  have p2: "(0::int) < 125" and q2: "(125::int) < 3600" by simp_all
  have c: "\<exists>hs ms ss. format_duration (Some 3725) = hs @ '':'' @ ms @ '':'' @ ss \<and>
      is_decimal hs 1 \<and> is_two_digits ms 2 \<and> is_two_digits ss 5"
    using r [OF p1, THEN conjunct1, THEN mp, OF q1] by simp
  have d: "\<exists>ms ss. format_duration (Some 125) = ms @ '':'' @ ss \<and>
      is_decimal ms 2 \<and> is_two_digits ss 5"
    using r [OF p2, THEN conjunct2, THEN mp, OF q2] by simp
  from a b c d show ?thesis by blast
qed

section \<open>Properties of the sequencer\<close>

subsection \<open>Views of the state\<close>

lemma get_queue_fst: "fst (get_queue gid w) = queue_of gid w"
  by (simp add: get_queue_def queue_of_def split: option.splits)

lemma get_queue_snd_views:
  "queue_of k (snd (get_queue gid w)) = queue_of k w"
  "guilds (snd (get_queue gid w)) = guilds w"
  "console (snd (get_queue gid w)) = console w"
  by (simp_all add: get_queue_def queue_of_def split: option.splits)

lemma get_queue_registered: "queue_of gid w \<noteq> [] \<Longrightarrow> get_queue gid w = (queue_of gid w, w)"
  by (simp add: get_queue_def queue_of_def split: option.splits)

lemma get_queue_idem: "get_queue gid (snd (get_queue gid w)) = get_queue gid w"
  by (simp add: get_queue_def split: option.splits)

lemma set_queue_views:
  "queue_of k (set_queue gid q w) = (if k = gid then q else queue_of k w)"
  "guilds (set_queue gid q w) = guilds w"
  "console (set_queue gid q w) = console w"
  by (simp_all add: set_queue_def queue_of_def)

lemma print_line_views:
  "queue_of k (print_line l w) = queue_of k w"
  "guilds (print_line l w) = guilds w"
  "console (print_line l w) = console w @ [l]"
  by (simp_all add: print_line_def queue_of_def)

lemma set_voice_client_views:
  "queue_of k (set_voice_client gid v w) = queue_of k w"
  "console (set_voice_client gid v w) = console w"
  "music_queues (set_voice_client gid v w) = music_queues w"
  by (simp_all add: set_voice_client_def queue_of_def split: option.splits)

lemma sink_of_set_voice_client:
  "guilds w gid = Some g \<Longrightarrow> sink_of gid (set_voice_client gid v w) = v"
  by (simp add: set_voice_client_def sink_of_def)

lemma sink_of_views:
  "sink_of k (set_queue gid q w) = sink_of k w"
  "sink_of k (print_line l w) = sink_of k w"
  "sink_of k (snd (get_queue gid w)) = sink_of k w"
  by (simp_all add: sink_of_def set_queue_views print_line_views get_queue_snd_views)

subsection \<open>One evaluation of \<^verbatim>\<open>start_next_song\<close>, branch by branch\<close>

lemma sns_no_guild: "guilds w gid = None \<Longrightarrow> start_next_song e gid w = w"
  by (subst start_next_song.simps) simp

lemma sns_empty:
  "guilds w gid = Some g \<Longrightarrow> queue_of gid w = [] \<Longrightarrow>
   start_next_song e gid w = snd (get_queue gid w)"
  by (subst start_next_song.simps)
     (simp add: get_queue_def queue_of_def split: option.splits)

lemma sns_no_sink:
  assumes "guilds w gid = Some g" and "queue_of gid w \<noteq> []"
    and "voice_client g = None \<or> (\<exists>vc. voice_client g = Some vc \<and> \<not> is_connected vc)"
  shows "start_next_song e gid w = set_queue gid [] w"
  using assms
  by (subst start_next_song.simps) (auto simp: get_queue_registered)

lemma sns_busy:
  assumes "guilds w gid = Some g" and "voice_client g = Some vc" and "is_connected vc"
    and "is_playing vc \<or> is_paused vc"
  shows "start_next_song e gid w = snd (get_queue gid w)"
  using assms
  by (subst start_next_song.simps) (auto simp: split_beta)

lemma sns_accept:
  assumes "guilds w gid = Some g" and "voice_client g = Some vc" and "is_connected vc"
    and "\<not> is_playing vc" and "\<not> is_paused vc"
    and "queue_of gid w = s # rest" and "play_raises e s = None"
  shows "start_next_song e gid w =
           print_line (NowPlayingIn (name g) (title s)) (set_voice_client gid (Some (vc_play s vc)) w)"
  using assms
  by (subst start_next_song.simps) (simp add: get_queue_registered)

lemma sns_reject:
  assumes "guilds w gid = Some g" and "voice_client g = Some vc" and "is_connected vc"
    and "\<not> is_playing vc" and "\<not> is_paused vc"
    and "queue_of gid w = s # rest" and "play_raises e s = Some exc"
  shows "start_next_song e gid w =
           start_next_song e gid (set_queue gid rest (print_line (ErrorStartingPlayback exc) w))"
  using assms
  by (subst start_next_song.simps) (simp add: get_queue_registered)

subsection \<open>The whole run on a connected idle sink\<close>

lemma sns_idle:
  assumes "guilds w gid = Some g" and "voice_client g = Some vc" and "is_connected vc"
    and "\<not> is_playing vc" and "\<not> is_paused vc"
  shows "queue_of gid (start_next_song e gid w) = dropWhile (rejected e) (queue_of gid w) \<and>
         console (start_next_song e gid w) =
           console w @ concat (map (error_lines e) (takeWhile (rejected e) (queue_of gid w)))
             @ started_line g (dropWhile (rejected e) (queue_of gid w)) \<and>
         sink_of gid (start_next_song e gid w) =
           Some (started_sink vc (dropWhile (rejected e) (queue_of gid w)))"
  using assms
proof (induction q \<equiv> "queue_of gid w" arbitrary: w)
  case Nil
  then have "start_next_song e gid w = snd (get_queue gid w)"
    by (simp add: sns_empty)
  with Nil show ?case
    by (simp add: get_queue_snd_views sink_of_views started_line_def started_sink_def sink_of_def)
next
  case (Cons s rest)
  then have q: "queue_of gid w = s # rest" by simp
  show ?case
  proof (cases "play_raises e s")
    case None
    then have "start_next_song e gid w =
        print_line (NowPlayingIn (name g) (title s)) (set_voice_client gid (Some (vc_play s vc)) w)"
      using Cons.prems q by (simp add: sns_accept)
    with None q Cons.prems show ?thesis
      by (simp add: print_line_views set_voice_client_views sink_of_views sink_of_set_voice_client
          rejected_def started_line_def started_sink_def)
  next
    case (Some exc)
    let ?w = "set_queue gid rest (print_line (ErrorStartingPlayback exc) w)"
    have step: "start_next_song e gid w = start_next_song e gid ?w"
      using Cons.prems q Some by (simp add: sns_reject)
    have "rest = queue_of gid ?w"
      by (simp add: set_queue_views)
    moreover have "guilds ?w gid = Some g"
      using Cons.prems by (simp add: set_queue_views print_line_views)
    ultimately have ih:
      "queue_of gid (start_next_song e gid ?w) = dropWhile (rejected e) (queue_of gid ?w) \<and>
       console (start_next_song e gid ?w) =
         console ?w @ concat (map (error_lines e) (takeWhile (rejected e) (queue_of gid ?w)))
           @ started_line g (dropWhile (rejected e) (queue_of gid ?w)) \<and>
       sink_of gid (start_next_song e gid ?w) =
         Some (started_sink vc (dropWhile (rejected e) (queue_of gid ?w)))"
      using Cons.hyps(1) [of ?w] Cons.prems by simp
    from ih step q Some show ?thesis
      by (simp add: set_queue_views print_line_views rejected_def error_lines_def)
  qed
qed

lemma sns_step_cases:
  obtains
    (no_guild) "guilds w gid = None" and "start_next_song e gid w = w"
  | (empty) g where "guilds w gid = Some g" and "queue_of gid w = []"
      and "start_next_song e gid w = snd (get_queue gid w)"
  | (no_sink) g where "guilds w gid = Some g" and "queue_of gid w \<noteq> []"
      and "voice_client g = None \<or> (\<exists>vc. voice_client g = Some vc \<and> \<not> is_connected vc)"
      and "start_next_song e gid w = set_queue gid [] w"
  | (busy) g vc where "guilds w gid = Some g" and "queue_of gid w \<noteq> []"
      and "voice_client g = Some vc" and "is_connected vc" and "is_playing vc \<or> is_paused vc"
      and "start_next_song e gid w = w"
  | (accept) g vc s rest where "guilds w gid = Some g" and "voice_client g = Some vc"
      and "is_connected vc" and "\<not> is_playing vc" and "\<not> is_paused vc"
      and "queue_of gid w = s # rest" and "play_raises e s = None"
      and "start_next_song e gid w =
             print_line (NowPlayingIn (name g) (title s)) (set_voice_client gid (Some (vc_play s vc)) w)"
  | (reject) g vc s rest exc where "guilds w gid = Some g" and "voice_client g = Some vc"
      and "is_connected vc" and "\<not> is_playing vc" and "\<not> is_paused vc"
      and "queue_of gid w = s # rest" and "play_raises e s = Some exc"
      and "start_next_song e gid w =
             start_next_song e gid (set_queue gid rest (print_line (ErrorStartingPlayback exc) w))"
proof (cases "guilds w gid")
  case None
  then show ?thesis using no_guild by (simp add: sns_no_guild)
next
  case g: (Some g)
  show ?thesis
  proof (cases "queue_of gid w")
    case Nil
    with g show ?thesis using empty by (simp add: sns_empty)
  next
    case q: (Cons s rest)
    show ?thesis
    proof (cases "voice_client g")
      case None
      with g q show ?thesis using no_sink [of g] by (simp add: sns_no_sink)
    next
      case vc: (Some vc)
      show ?thesis
      proof (cases "is_connected vc")
        case False
        with g q vc show ?thesis using no_sink [of g] by (simp add: sns_no_sink)
      next
        case conn: True
        show ?thesis
        proof (cases "is_playing vc \<or> is_paused vc")
          case True
          with g q vc conn have "start_next_song e gid w = w"
            using sns_busy [of w gid g vc e] by (simp add: get_queue_registered)
          with g q vc conn True show ?thesis using busy [of g vc] by simp
        next
          case idle: False
          show ?thesis
          proof (cases "play_raises e s")
            case None
            with g q vc conn idle show ?thesis
              using accept [of g vc s rest] sns_accept [of w gid g vc s rest e] by simp
          next
            case (Some exc)
            with g q vc conn idle show ?thesis
              using reject [of g vc s rest exc] sns_reject [of w gid g vc s rest e exc] by simp
          qed
        qed
      qed
    qed
  qed
qed

lemma guilds_set_voice_client_other:
  "k \<noteq> gid \<Longrightarrow> guilds (set_voice_client gid v w) k = guilds w k"
  by (simp add: set_voice_client_def split: option.splits)

lemma sns_other:
  assumes "k \<noteq> gid"
  shows "queue_of k (start_next_song e gid w) = queue_of k w \<and>
         guilds (start_next_song e gid w) k = guilds w k"
proof (induction q \<equiv> "queue_of gid w" arbitrary: w)
  case Nil
  show ?case
  proof (cases rule: sns_step_cases [of w gid e])
    case (accept g vc s rest)
    with Nil show ?thesis by simp
  next
    case (reject g vc s rest exc)
    with Nil show ?thesis by simp
  qed (simp_all add: get_queue_snd_views set_queue_views assms)
next
  case (Cons s' rest')
  show ?case
  proof (cases rule: sns_step_cases [of w gid e])
    case (accept g vc s rest)
    then show ?thesis
      using assms by (simp add: print_line_views set_voice_client_views guilds_set_voice_client_other)
  next
    case (reject g vc s rest exc)
    let ?w = "set_queue gid rest (print_line (ErrorStartingPlayback exc) w)"
    from reject Cons.hyps(2) have "rest' = queue_of gid ?w"
      by (simp add: set_queue_views)
    then have "queue_of k (start_next_song e gid ?w) = queue_of k ?w \<and>
        guilds (start_next_song e gid ?w) k = guilds ?w k"
      by (rule Cons.hyps(1))
    with reject assms show ?thesis
      by (simp add: set_queue_views print_line_views)
  qed (simp_all add: get_queue_snd_views set_queue_views assms)
qed

lemma sns_suffix: "suffix (queue_of gid (start_next_song e gid w)) (queue_of gid w)"
proof (cases rule: sns_step_cases [of w gid e])
  case (accept g vc s rest)
  then show ?thesis by (simp add: print_line_views set_voice_client_views)
next
  case (reject g vc s rest exc)
  then have "queue_of gid (start_next_song e gid w) = dropWhile (rejected e) (queue_of gid w)"
    using sns_idle [of w gid g vc e] by simp
  then show ?thesis by (simp add: suffix_dropWhile)
qed (simp_all add: get_queue_snd_views set_queue_views)

lemma sink_busy_views:
  "sink_busy k (set_queue gid q w) = sink_busy k w"
  "sink_busy k (print_line l w) = sink_busy k w"
  "sink_busy k (snd (get_queue gid w)) = sink_busy k w"
  by (simp_all add: sink_busy_def sink_of_views)

text \<open>From an idle sink, a sink that plays afterwards plays the head of the queue.\<close>

lemma sns_head_sounds:
  assumes "\<not> sink_busy gid w" and "sink_busy gid (start_next_song e gid w)"
  shows "queue_of gid (start_next_song e gid w) \<noteq> [] \<and>
         sounding gid (start_next_song e gid w) = Some (hd (queue_of gid (start_next_song e gid w)))"
proof (cases rule: sns_step_cases [of w gid e])
  case (accept g vc s rest)
  then show ?thesis
    by (simp add: print_line_views set_voice_client_views sounding_def sink_of_views
        sink_of_set_voice_client vc_play_def)
next
  case (reject g vc s rest exc)
  then have r: "queue_of gid (start_next_song e gid w) = dropWhile (rejected e) (queue_of gid w)"
    "sink_of gid (start_next_song e gid w) =
       Some (started_sink vc (dropWhile (rejected e) (queue_of gid w)))"
    using sns_idle [of w gid g vc e] by simp_all
  show ?thesis
  proof (cases "dropWhile (rejected e) (queue_of gid w)")
    case Nil
    with r reject assms(2) show ?thesis
      by (simp add: sink_busy_def started_sink_def)
  next
    case (Cons t ts)
    with r show ?thesis
      by (simp add: sounding_def started_sink_def vc_play_def)
  qed
qed (use assms in \<open>simp_all add: sink_busy_views\<close>)

subsection \<open>A busy sink\<close>

lemmas sample_defs =
  track_A_def track_B_def env_ok_def env_bad_A_def sink_idle_def sink_playing_A_def
  sink_ended_A_def sink_lost_def sink_off_def world_of_def in_guild_1_def connected_client_def vc_play_def

lemmas state_defs =
  get_queue_def set_queue_def print_line_def set_voice_client_def queue_of_def sink_of_def
  sink_busy_def sounding_def vc_stop_def

text \<open>
  Claim C2, as the code has it.  When \<^verbatim>\<open>start_next_song\<close> runs for a guild whose voice
  client reports playing or paused, it issues no play call: the voice client and the
  printed output are as before, and no other guild's queue changes.  When that client is
  also connected, the run is an idempotent no-op: the guild's queue is unchanged, a
  second run changes nothing more, and with the queue already registered the whole state
  is unchanged.  When the client is busy but not connected, the check of lines 115 to
  118 comes first and the guild's queue is left empty.
\<close>

theorem start_next_song_busy_noop:
  assumes "guilds w gid = Some g" and "voice_client g = Some vc"
    and "is_playing vc \<or> is_paused vc"
  shows "guilds (start_next_song e gid w) = guilds w \<and>
         console (start_next_song e gid w) = console w \<and>
         (\<forall>k. k \<noteq> gid \<longrightarrow> queue_of k (start_next_song e gid w) = queue_of k w) \<and>
         (is_connected vc \<longrightarrow>
            queue_of gid (start_next_song e gid w) = queue_of gid w \<and>
            start_next_song e gid (start_next_song e gid w) = start_next_song e gid w \<and>
            (music_queues w gid \<noteq> None \<longrightarrow> start_next_song e gid w = w)) \<and>
         (\<not> is_connected vc \<longrightarrow> queue_of gid (start_next_song e gid w) = [])"
proof (cases "is_connected vc")
  case True
  have r: "start_next_song e gid w = snd (get_queue gid w)"
    using assms(1,2) True assms(3) by (rule sns_busy)
  have "guilds (snd (get_queue gid w)) gid = Some g"
    using assms(1) by (simp add: get_queue_snd_views)
  then have "start_next_song e gid (snd (get_queue gid w)) =
      snd (get_queue gid (snd (get_queue gid w)))"
    using assms(2) True assms(3) by (rule sns_busy)
  then have idem: "start_next_song e gid (start_next_song e gid w) = start_next_song e gid w"
    by (simp add: r get_queue_idem)
  have "music_queues w gid \<noteq> None \<longrightarrow> snd (get_queue gid w) = w"
    by (auto simp: get_queue_def)
  with r idem True show ?thesis
    by (simp add: get_queue_snd_views)
next
  case False
  show ?thesis
  proof (cases "queue_of gid w = []")
    case True
    then have "start_next_song e gid w = snd (get_queue gid w)"
      using assms(1) by (simp add: sns_empty)
    with True False show ?thesis
      by (simp add: get_queue_snd_views)
  next
    case nonempty: False
    have "voice_client g = None \<or> (\<exists>vc. voice_client g = Some vc \<and> \<not> is_connected vc)"
      using assms(2) False by simp
    with assms(1) nonempty have "start_next_song e gid w = set_queue gid [] w"
      by (rule sns_no_sink)
    with False show ?thesis
      by (simp add: set_queue_views)
  qed
qed

text \<open>The statement above at a sample state.\<close>

theorem start_next_song_busy_noop_witness:
  "queue_of 1 (start_next_song env_ok 1 (world_of [track_A, track_B] (Some sink_playing_A)))
     = [track_A, track_B] \<and>
   console (start_next_song env_ok 1 (world_of [track_A, track_B] (Some sink_playing_A))) = [] \<and>
   start_next_song env_ok 1 (world_of [track_A, track_B] (Some sink_playing_A))
     = world_of [track_A, track_B] (Some sink_playing_A)"
proof -
  let ?w = "world_of [track_A, track_B] (Some sink_playing_A)"
  let ?g = "\<lparr>name = ''home'', voice_client = Some sink_playing_A\<rparr>"
  have h1: "guilds ?w 1 = Some ?g"
    by (simp add: world_of_def)
  have h2: "voice_client ?g = Some sink_playing_A"
    by simp
  have h3: "is_playing sink_playing_A \<or> is_paused sink_playing_A"
    and c: "is_connected sink_playing_A"
    by (simp_all add: sink_playing_A_def vc_play_def connected_client_def)
  have q: "queue_of 1 ?w = [track_A, track_B]" and m: "music_queues ?w 1 \<noteq> None"
    and l: "console ?w = []"
    by (simp_all add: queue_of_def world_of_def)
  from start_next_song_busy_noop [OF h1 h2 h3, of env_ok] c q m l show ?thesis
    by simp
qed

text \<open>
  Claim C2 as stated fails where the sink reports playing while the connection is lost:
  the voice client of guild 1 is playing track A and is not connected, the queue holds
  track A, and \<^verbatim>\<open>start_next_song\<close> leaves the queue empty.
\<close>

theorem start_next_song_busy_disconnected_clears:
  "sink_busy 1 (world_of [track_A] (Some sink_lost)) \<and>
   queue_of 1 (world_of [track_A] (Some sink_lost)) = [track_A] \<and>
   queue_of 1 (start_next_song env_ok 1 (world_of [track_A] (Some sink_lost))) = [] \<and>
   queue_of 1 (start_next_song env_ok 1 (world_of [track_A] (Some sink_lost)))
     \<noteq> queue_of 1 (world_of [track_A] (Some sink_lost))"
  by (simp add: start_next_song.simps sample_defs state_defs)

text \<open>
  Claim C4.  On a connected sink that is neither playing nor paused, with the track \<open>s\<close>
  at the head of the queue and \<^verbatim>\<open>voice_client.play\<close> raising \<open>exc\<close> for it:
  \<^verbatim>\<open>start_next_song\<close> is the run of \<^verbatim>\<open>start_next_song\<close> on the state with exactly \<open>s\<close>
  removed and the one line for \<open>exc\<close> printed.  The whole run leaves the queue without its
  longest prefix of refused tracks, one removed per step; the sink plays afterwards
  exactly when a track is left, and then it plays the new head.  The printed lines are
  one error line per refused track, each with what the sink raised for that track, and
  the line of the track that started.  In particular, when the next track is not
  refused, the queue is the rest, the next track sounds, and the only error printed is
  the one raised for \<open>s\<close>.  No other guild's queue changes.
\<close>

theorem start_rejected_drops_head:
  assumes "guilds w gid = Some g" and "voice_client g = Some vc" and "is_connected vc"
    and "\<not> is_playing vc" and "\<not> is_paused vc"
    and "queue_of gid w = s # rest" and "play_raises e s = Some exc"
  shows "start_next_song e gid w =
           start_next_song e gid (set_queue gid rest (print_line (ErrorStartingPlayback exc) w)) \<and>
         queue_of gid (start_next_song e gid w) = dropWhile (rejected e) rest \<and>
         (sink_busy gid (start_next_song e gid w) \<longleftrightarrow> dropWhile (rejected e) rest \<noteq> []) \<and>
         (dropWhile (rejected e) rest \<noteq> [] \<longrightarrow>
            sounding gid (start_next_song e gid w) = Some (hd (dropWhile (rejected e) rest))) \<and>
         console (start_next_song e gid w) =
           console w @ [ErrorStartingPlayback exc]
             @ concat (map (error_lines e) (takeWhile (rejected e) rest))
             @ started_line g (dropWhile (rejected e) rest) \<and>
         (rest \<noteq> [] \<and> \<not> rejected e (hd rest) \<longrightarrow>
            queue_of gid (start_next_song e gid w) = rest \<and>
            sounding gid (start_next_song e gid w) = Some (hd rest) \<and>
            console (start_next_song e gid w) =
              console w @ [ErrorStartingPlayback exc, NowPlayingIn (name g) (title (hd rest))]) \<and>
         (\<forall>k. k \<noteq> gid \<longrightarrow> queue_of k (start_next_song e gid w) = queue_of k w)"
proof -
  let ?w' = "start_next_song e gid w"
  let ?keep = "dropWhile (rejected e) rest"
  have bad: "rejected e s"
    using assms(7) by (simp add: rejected_def)
  have step: "?w' = start_next_song e gid (set_queue gid rest (print_line (ErrorStartingPlayback exc) w))"
    using assms by (rule sns_reject)
  have run: "queue_of gid ?w' = dropWhile (rejected e) (queue_of gid w)"
    "console ?w' = console w @ concat (map (error_lines e) (takeWhile (rejected e) (queue_of gid w)))
       @ started_line g (dropWhile (rejected e) (queue_of gid w))"
    "sink_of gid ?w' = Some (started_sink vc (dropWhile (rejected e) (queue_of gid w)))"
    using sns_idle [OF assms(1-5), of e] by simp_all
  have q: "queue_of gid ?w' = ?keep"
    using run(1) assms(6) bad by simp
  have c: "console ?w' = console w @ [ErrorStartingPlayback exc]
      @ concat (map (error_lines e) (takeWhile (rejected e) rest)) @ started_line g ?keep"
    using run(2) assms(6,7) bad by (simp add: error_lines_def)
  have v: "sink_of gid ?w' = Some (started_sink vc ?keep)"
    using run(3) assms(6) bad by simp
  have busy: "sink_busy gid ?w' \<longleftrightarrow> ?keep \<noteq> []"
    using v assms(4,5) by (cases ?keep) (simp_all add: sink_busy_def started_sink_def vc_play_def)
  have snd: "?keep \<noteq> [] \<longrightarrow> sounding gid ?w' = Some (hd ?keep)"
    using v by (cases ?keep) (simp_all add: sounding_def started_sink_def vc_play_def)
  have next_ok: "rest \<noteq> [] \<and> \<not> rejected e (hd rest) \<longrightarrow>
      queue_of gid ?w' = rest \<and> sounding gid ?w' = Some (hd rest) \<and>
      console ?w' = console w @ [ErrorStartingPlayback exc, NowPlayingIn (name g) (title (hd rest))]"
  proof (intro impI)
    assume a: "rest \<noteq> [] \<and> \<not> rejected e (hd rest)"
    then obtain t ts where rest: "rest = t # ts" and ok: "\<not> rejected e t"
      by (cases rest) simp_all
    then have "?keep = rest" "takeWhile (rejected e) rest = []"
      by simp_all
    with q c snd rest show "queue_of gid ?w' = rest \<and> sounding gid ?w' = Some (hd rest) \<and>
      console ?w' = console w @ [ErrorStartingPlayback exc, NowPlayingIn (name g) (title (hd rest))]"
      by (simp add: started_line_def)
  qed
  have others: "\<forall>k. k \<noteq> gid \<longrightarrow> queue_of k ?w' = queue_of k w"
    by (simp add: sns_other)
  from step q busy snd c next_ok others show ?thesis
    by blast
qed

text \<open>The statement above at a sample state.\<close>

theorem start_rejected_drops_head_witness:
  "queue_of 1 (start_next_song env_bad_A 1 (world_of [track_A, track_B] (Some sink_idle)))
     = [track_B] \<and>
   sounding 1 (start_next_song env_bad_A 1 (world_of [track_A, track_B] (Some sink_idle)))
     = Some track_B \<and>
   console (start_next_song env_bad_A 1 (world_of [track_A, track_B] (Some sink_idle)))
     = [ErrorStartingPlayback ''rejected'', NowPlayingIn ''home'' ''B'']"
proof -
  let ?w = "world_of [track_A, track_B] (Some sink_idle)"
  let ?g = "\<lparr>name = ''home'', voice_client = Some sink_idle\<rparr>"
  have h1: "guilds ?w 1 = Some ?g"
    by (simp add: world_of_def)
  have h2: "voice_client ?g = Some sink_idle"
    by simp
  have h3: "is_connected sink_idle" and h4: "\<not> is_playing sink_idle"
    and h5: "\<not> is_paused sink_idle"
    by (simp_all add: sink_idle_def connected_client_def)
  have h6: "queue_of 1 ?w = track_A # [track_B]"
    by (simp add: world_of_def queue_of_def)
  have h7: "play_raises env_bad_A track_A = Some ''rejected''"
    by (simp add: env_bad_A_def)
  have ok: "\<not> rejected env_bad_A track_B"
    by (simp add: rejected_def env_bad_A_def track_A_def track_B_def)
  have t: "title track_B = ''B''"
    by (simp add: track_B_def)
  have c: "console ?w = []"
    by (simp add: world_of_def)
  from start_rejected_drops_head [OF h1 h2 h3 h4 h5 h6 h7, THEN conjunct2] ok t c
  show ?thesis
    by (simp add: started_line_def)
qed

subsection \<open>The completion signal\<close>

text \<open>The callback is one removal from the head followed by one evaluation.\<close>

lemma after_play_step:
  "\<exists>w1. after_play e gid error w = start_next_song e gid w1 \<and>
        queue_of gid w1 = tl (queue_of gid w) \<and>
        (\<forall>k. k \<noteq> gid \<longrightarrow> queue_of k w1 = queue_of k w) \<and>
        guilds w1 = guilds w \<and>
        console w1 = console w @ (case error of None \<Rightarrow> [] | Some x \<Rightarrow> [PlayerError gid x])"
proof -
  define w0 where "w0 = (case error of None \<Rightarrow> w | Some x \<Rightarrow> print_line (PlayerError gid x) w)"
  define w1 where "w1 = (if fst (get_queue gid w0) \<noteq> []
      then set_queue gid (tl (fst (get_queue gid w0))) (snd (get_queue gid w0))
      else snd (get_queue gid w0))"
  have w0: "queue_of k w0 = queue_of k w" "guilds w0 = guilds w"
    "console w0 = console w @ (case error of None \<Rightarrow> [] | Some x \<Rightarrow> [PlayerError gid x])" for k
    by (simp_all add: w0_def print_line_views split: option.splits)
  have "after_play e gid error w = start_next_song e gid w1"
    by (simp add: after_play_def w0_def w1_def Let_def split_beta)
  moreover have "queue_of gid w1 = tl (queue_of gid w)"
    using w0(1) [of gid]
    by (simp add: w1_def get_queue_fst set_queue_views get_queue_snd_views)
  moreover have "\<forall>k. k \<noteq> gid \<longrightarrow> queue_of k w1 = queue_of k w"
    using w0(1) by (simp add: w1_def set_queue_views get_queue_snd_views)
  moreover have "guilds w1 = guilds w"
    using w0(2) by (simp add: w1_def set_queue_views get_queue_snd_views)
  moreover have "console w1 = console w @ (case error of None \<Rightarrow> [] | Some x \<Rightarrow> [PlayerError gid x])"
    using w0(3) by (simp add: w1_def set_queue_views get_queue_snd_views)
  ultimately show ?thesis
    by blast
qed

lemma after_play_run:
  "\<exists>w1. after_play e gid error w = start_next_song e gid w1 \<and>
        queue_of gid w1 = tl (queue_of gid w) \<and>
        (\<forall>k. k \<noteq> gid \<longrightarrow> queue_of k w1 = queue_of k w) \<and>
        guilds w1 = guilds w"
  using after_play_step [of e gid error w] by blast

lemma after_play_suffix: "suffix (queue_of gid (after_play e gid error w)) (tl (queue_of gid w))"
proof -
  obtain w1 where "after_play e gid error w = start_next_song e gid w1"
    and "queue_of gid w1 = tl (queue_of gid w)"
    using after_play_run [of e gid error w] by blast
  then show ?thesis
    using sns_suffix [of gid e w1] by simp
qed

lemma after_play_other:
  "k \<noteq> gid \<Longrightarrow> queue_of k (after_play e gid error w) = queue_of k w"
proof -
  assume k: "k \<noteq> gid"
  obtain w1 where "after_play e gid error w = start_next_song e gid w1"
    and "\<forall>k. k \<noteq> gid \<longrightarrow> queue_of k w1 = queue_of k w"
    using after_play_run [of e gid error w] by blast
  with k show ?thesis
    by (simp add: sns_other)
qed

text \<open>
  Delivered to a sink that is neither playing nor paused, the callback leaves the sink
  either silent or sounding the new head of the queue.
\<close>

lemma after_play_head_sounds:
  assumes "\<not> sink_busy gid w" and "sink_busy gid (after_play e gid error w)"
  shows "queue_of gid (after_play e gid error w) \<noteq> [] \<and>
         sounding gid (after_play e gid error w) =
           Some (hd (queue_of gid (after_play e gid error w)))"
proof -
  obtain w1 where w1: "after_play e gid error w = start_next_song e gid w1"
    and g: "guilds w1 = guilds w"
    using after_play_run [of e gid error w] by blast
  have idle: "\<not> sink_busy gid w1"
    using assms(1) g by (simp add: sink_busy_def sink_of_def)
  from sns_head_sounds [OF idle, of e] assms(2) show ?thesis
    by (simp add: w1)
qed

lemma after_play_idle_connected:
  assumes "\<exists>vc. sink_of gid w = Some vc \<and> is_connected vc \<and> \<not> is_playing vc \<and> \<not> is_paused vc"
  shows "queue_of gid (after_play e gid error w) = dropWhile (rejected e) (tl (queue_of gid w)) \<and>
         (sink_busy gid (after_play e gid error w) \<longleftrightarrow>
            dropWhile (rejected e) (tl (queue_of gid w)) \<noteq> [])"
proof -
  let ?w' = "after_play e gid error w"
  let ?keep = "dropWhile (rejected e) (tl (queue_of gid w))"
  obtain w1 where fin: "?w' = start_next_song e gid w1"
    and q1: "queue_of gid w1 = tl (queue_of gid w)" and g1: "guilds w1 = guilds w"
    using after_play_run [of e gid error w] by blast
  from assms obtain g vc where g: "guilds w gid = Some g" and vc: "voice_client g = Some vc"
    and conn: "is_connected vc" and idle: "\<not> is_playing vc" "\<not> is_paused vc"
    by (auto simp: sink_of_def split: option.splits)
  have g1': "guilds w1 gid = Some g"
    using g g1 by simp
  have run: "queue_of gid ?w' = ?keep" "sink_of gid ?w' = Some (started_sink vc ?keep)"
    using sns_idle [OF g1' vc conn idle, of e] by (simp_all add: fin q1)
  have "sink_busy gid ?w' \<longleftrightarrow> ?keep \<noteq> []"
    using run(2) idle by (cases ?keep) (simp_all add: sink_busy_def started_sink_def vc_play_def)
  with run(1) show ?thesis
    by simp
qed

text \<open>
  Claim C1, as the code has it.  For every delivery of the completion signal, with or
  without an error: the callback \<^verbatim>\<open>_after_play\<close> is one run of \<^verbatim>\<open>start_next_song\<close> on
  the state whose queue for the guild is the old queue without its head, with the error
  line printed if an error was reported.  After the delivery the queue is a suffix of
  the old tail, so the finished track is gone, and no other guild's queue changes.
  When the sink reports neither playing nor paused at the delivery, the guild is not
  left playing the finished track: if the sink is busy afterwards, the queue is not
  empty and the sink sounds its head.  When the sink is moreover connected, the queue
  afterwards is the old tail without the tracks the sink refuses to start, the sink is
  busy exactly when that is not empty, and when the next track is not refused exactly
  one track has been removed.
\<close>

theorem after_play_pops_and_restarts:
  "(\<exists>w1. after_play e gid error w = start_next_song e gid w1 \<and>
          queue_of gid w1 = tl (queue_of gid w) \<and>
          guilds w1 = guilds w \<and>
          console w1 = console w @ (case error of None \<Rightarrow> [] | Some x \<Rightarrow> [PlayerError gid x])) \<and>
   suffix (queue_of gid (after_play e gid error w)) (tl (queue_of gid w)) \<and>
   (\<forall>k. k \<noteq> gid \<longrightarrow> queue_of k (after_play e gid error w) = queue_of k w) \<and>
   (\<not> sink_busy gid w \<and> sink_busy gid (after_play e gid error w) \<longrightarrow>
      queue_of gid (after_play e gid error w) \<noteq> [] \<and>
      sounding gid (after_play e gid error w) =
        Some (hd (queue_of gid (after_play e gid error w)))) \<and>
   ((\<exists>vc. sink_of gid w = Some vc \<and> is_connected vc \<and> \<not> is_playing vc \<and> \<not> is_paused vc) \<longrightarrow>
      queue_of gid (after_play e gid error w) = dropWhile (rejected e) (tl (queue_of gid w)) \<and>
      (sink_busy gid (after_play e gid error w) \<longleftrightarrow>
         dropWhile (rejected e) (tl (queue_of gid w)) \<noteq> []) \<and>
      (tl (queue_of gid w) = [] \<or> \<not> rejected e (hd (tl (queue_of gid w))) \<longrightarrow>
         queue_of gid (after_play e gid error w) = tl (queue_of gid w)))"
proof -
  let ?w' = "after_play e gid error w"
  have a: "\<exists>w1. after_play e gid error w = start_next_song e gid w1 \<and>
      queue_of gid w1 = tl (queue_of gid w) \<and> guilds w1 = guilds w \<and>
      console w1 = console w @ (case error of None \<Rightarrow> [] | Some x \<Rightarrow> [PlayerError gid x])"
    using after_play_step [of e gid error w] by blast
  have b: "suffix (queue_of gid ?w') (tl (queue_of gid w))"
    by (rule after_play_suffix)
  have c: "\<forall>k. k \<noteq> gid \<longrightarrow> queue_of k ?w' = queue_of k w"
    by (simp add: after_play_other)
  have d: "\<not> sink_busy gid w \<and> sink_busy gid ?w' \<longrightarrow>
      queue_of gid ?w' \<noteq> [] \<and> sounding gid ?w' = Some (hd (queue_of gid ?w'))"
    using after_play_head_sounds [of gid w e error] by blast
  have f: "(\<exists>vc. sink_of gid w = Some vc \<and> is_connected vc \<and> \<not> is_playing vc \<and> \<not> is_paused vc) \<longrightarrow>
      queue_of gid ?w' = dropWhile (rejected e) (tl (queue_of gid w)) \<and>
      (sink_busy gid ?w' \<longleftrightarrow> dropWhile (rejected e) (tl (queue_of gid w)) \<noteq> []) \<and>
      (tl (queue_of gid w) = [] \<or> \<not> rejected e (hd (tl (queue_of gid w))) \<longrightarrow>
         queue_of gid ?w' = tl (queue_of gid w))"
  proof (intro impI)
    assume conn: "\<exists>vc. sink_of gid w = Some vc \<and> is_connected vc \<and> \<not> is_playing vc \<and> \<not> is_paused vc"
    let ?keep = "dropWhile (rejected e) (tl (queue_of gid w))"
    have "tl (queue_of gid w) = [] \<or> \<not> rejected e (hd (tl (queue_of gid w))) \<longrightarrow>
        ?keep = tl (queue_of gid w)"
      by (cases "tl (queue_of gid w)") simp_all
    with after_play_idle_connected [OF conn, of e error]
    show "queue_of gid ?w' = ?keep \<and> (sink_busy gid ?w' \<longleftrightarrow> ?keep \<noteq> []) \<and>
      (tl (queue_of gid w) = [] \<or> \<not> rejected e (hd (tl (queue_of gid w))) \<longrightarrow>
         queue_of gid ?w' = tl (queue_of gid w))"
      by simp
  qed
  from a b c d f show ?thesis
    by blast
qed

text \<open>The statement above at a sample state.\<close>

theorem after_play_pops_and_restarts_witness:
  "queue_of 1 (after_play env_ok 1 None (world_of [track_A, track_B] (Some sink_ended_A)))
     = [track_B] \<and>
   sink_busy 1 (after_play env_ok 1 None (world_of [track_A, track_B] (Some sink_ended_A))) \<and>
   sounding 1 (after_play env_ok 1 None (world_of [track_A, track_B] (Some sink_ended_A)))
     = Some track_B"
proof -
  let ?w = "world_of [track_A, track_B] (Some sink_ended_A)"
  have s: "\<exists>vc. sink_of 1 ?w = Some vc \<and> is_connected vc \<and> \<not> is_playing vc \<and> \<not> is_paused vc"
    by (simp add: sink_of_def world_of_def sink_ended_A_def vc_play_def connected_client_def)
  have i: "\<not> sink_busy 1 ?w"
    by (simp add: sink_busy_def sink_of_def world_of_def sink_ended_A_def vc_play_def
        connected_client_def)
  have q: "tl (queue_of 1 ?w) = [track_B]"
    by (simp add: queue_of_def world_of_def)
  have ok: "\<not> rejected env_ok track_B"
    by (simp add: rejected_def env_ok_def)
  note r = after_play_pops_and_restarts [of env_ok 1 None ?w, THEN conjunct2, THEN conjunct2,
      THEN conjunct2]
  from r [THEN conjunct2, THEN mp, OF s] q ok
  have a: "queue_of 1 (after_play env_ok 1 None ?w) = [track_B]"
    and b: "sink_busy 1 (after_play env_ok 1 None ?w)"
    by simp_all
  from r [THEN conjunct1, THEN mp] i b a
  have "sounding 1 (after_play env_ok 1 None ?w) = Some track_B"
    by simp
  with a b show ?thesis
    by simp
qed

text \<open>
  Claim C1 as stated fails where the callback is delivered while the sink still reports
  playing: the voice client of guild 1 has lost its connection and reports playing
  track A, the queue holds tracks A and B, and the callback is delivered without an
  error.  Afterwards the queue is empty and the sink still reports playing track A: the
  guild is left in a playing state with no current track.
\<close>

theorem after_play_lost_connection_stays_playing:
  "sink_busy 1 (world_of [track_A, track_B] (Some sink_lost)) \<and>
   queue_of 1 (after_play env_ok 1 None (world_of [track_A, track_B] (Some sink_lost))) = [] \<and>
   sink_busy 1 (after_play env_ok 1 None (world_of [track_A, track_B] (Some sink_lost))) \<and>
   sounding 1 (after_play env_ok 1 None (world_of [track_A, track_B] (Some sink_lost)))
     = Some track_A"
  by (simp add: after_play_def start_next_song.simps sample_defs state_defs)

subsection \<open>Enqueue\<close>

lemma set_queue_get_queue: "set_queue gid q (snd (get_queue gid w)) = set_queue gid q w"
  by (simp add: set_queue_def get_queue_def split: option.splits)

lemma play_cmd_enqueue_busy:
  assumes "is_playing vc \<or> is_paused vc"
  shows "play_cmd_enqueue e gid vc song w =
           ((AddedToQueue (length (queue_of gid w) + 1) (title song) (webpage_url song)
               (format_duration (duration song)), False),
            set_queue gid (queue_of gid w @ [song]) w)"
  using assms
  by (auto simp: play_cmd_enqueue_def split_beta Let_def get_queue_fst set_queue_get_queue
      set_queue_views)

lemma play_cmd_enqueue_idle:
  assumes "\<not> is_playing vc" and "\<not> is_paused vc"
  shows "play_cmd_enqueue e gid vc song w =
           ((NowPlaying (title song) (webpage_url song) (format_duration (duration song)), False),
            start_next_song e gid (set_queue gid (queue_of gid w @ [song]) w))"
  using assms
  by (simp add: play_cmd_enqueue_def split_beta Let_def get_queue_fst set_queue_get_queue)

lemma join_or_move_queues:
  "join_or_move e gid g ch w0 = Inr (vc, w) \<Longrightarrow> music_queues w = music_queues w0"
  by (auto simp: join_or_move_def Let_def set_voice_client_views
      split: option.splits if_splits)

text \<open>
  Claim C9.  When the voice client reports playing or paused, the enqueue of
  \<^verbatim>\<open>play_cmd\<close> (lines 222 to 236) only appends: the guild's queue is the old queue with
  the new track at the tail, the reported position is the length of the queue after the
  append, which is the old length plus one, and neither the voice client, the printed
  output nor another guild's queue changes, so nothing is started.  The command
  \<^verbatim>\<open>play_cmd\<close> as a whole, once the bot is in the user's channel and the track is
  fetched, is this enqueue, and joining or moving does not touch the queues.
\<close>

theorem enqueue_while_busy_appends:
  assumes "is_playing vc \<or> is_paused vc"
  shows "fst (play_cmd_enqueue e gid vc song w) =
           (AddedToQueue (length (queue_of gid (snd (play_cmd_enqueue e gid vc song w))))
              (title song) (webpage_url song) (format_duration (duration song)), False) \<and>
         queue_of gid (snd (play_cmd_enqueue e gid vc song w)) = queue_of gid w @ [song] \<and>
         length (queue_of gid (snd (play_cmd_enqueue e gid vc song w)))
           = length (queue_of gid w) + 1 \<and>
         (\<forall>k. k \<noteq> gid \<longrightarrow> queue_of k (snd (play_cmd_enqueue e gid vc song w)) = queue_of k w) \<and>
         guilds (snd (play_cmd_enqueue e gid vc song w)) = guilds w \<and>
         console (snd (play_cmd_enqueue e gid vc song w)) = console w \<and>
         (\<forall>i url' g ch w0.
            i_guild i = Some gid \<and> guilds w0 gid = Some g \<and> i_voice_channel i = Some ch \<and>
            join_or_move e gid g ch w0 = Inr (vc, w) \<and>
            fetch_song e url' (i_user i) = Inr song \<longrightarrow>
            play_cmd e i url' w0 = play_cmd_enqueue e gid vc song w \<and>
            music_queues w = music_queues w0)"
proof -
  let ?r = "play_cmd_enqueue e gid vc song w"
  have cmd: "\<forall>i url' g ch w0.
      i_guild i = Some gid \<and> guilds w0 gid = Some g \<and> i_voice_channel i = Some ch \<and>
      join_or_move e gid g ch w0 = Inr (vc, w) \<and>
      fetch_song e url' (i_user i) = Inr song \<longrightarrow>
      play_cmd e i url' w0 = ?r \<and> music_queues w = music_queues w0"
    by (auto simp: play_cmd_def interaction_guild_def join_or_move_queues)
  note eq = play_cmd_enqueue_busy [OF assms, of e gid song w]
  have q: "queue_of gid (snd ?r) = queue_of gid w @ [song]"
    by (simp add: eq set_queue_views)
  have f: "fst ?r = (AddedToQueue (length (queue_of gid (snd ?r))) (title song)
      (webpage_url song) (format_duration (duration song)), False)"
    by (simp add: eq set_queue_views)
  have l: "length (queue_of gid (snd ?r)) = length (queue_of gid w) + 1"
    by (simp add: q)
  have o: "\<forall>k. k \<noteq> gid \<longrightarrow> queue_of k (snd ?r) = queue_of k w"
    by (simp add: eq set_queue_views)
  have g: "guilds (snd ?r) = guilds w" and c: "console (snd ?r) = console w"
    by (simp_all add: eq set_queue_views)
  from f q l o g c cmd show ?thesis
    by blast
qed

text \<open>The statement above at a sample state.\<close>

theorem enqueue_while_busy_appends_witness:
  "play_cmd env_ok in_guild_1 ''b'' (world_of [track_A] (Some sink_playing_A)) =
     ((AddedToQueue 2 ''B'' ''https://b'' ''unknown'', False),
      world_of [track_A, track_B] (Some sink_playing_A)) \<and>
   sounding 1 (snd (play_cmd env_ok in_guild_1 ''b'' (world_of [track_A] (Some sink_playing_A))))
     = Some track_A"
proof -
  let ?w = "world_of [track_A] (Some sink_playing_A)"
  let ?g = "\<lparr>name = ''home'', voice_client = Some sink_playing_A\<rparr>"
  have busy: "is_playing sink_playing_A \<or> is_paused sink_playing_A"
    by (simp add: sink_playing_A_def vc_play_def)
  have j: "join_or_move env_ok 1 ?g 7 ?w = Inr (sink_playing_A, ?w)"
    by (simp add: join_or_move_def sink_playing_A_def vc_play_def connected_client_def)
  have pre: "i_guild in_guild_1 = Some 1 \<and> guilds ?w 1 = Some ?g \<and>
      i_voice_channel in_guild_1 = Some 7 \<and>
      join_or_move env_ok 1 ?g 7 ?w = Inr (sink_playing_A, ?w) \<and>
      fetch_song env_ok ''b'' (i_user in_guild_1) = Inr track_B"
    using j by (simp add: in_guild_1_def world_of_def env_ok_def)
  note r = enqueue_while_busy_appends [OF busy, of env_ok 1 track_B ?w]
  have whole: "play_cmd env_ok in_guild_1 ''b'' ?w = play_cmd_enqueue env_ok 1 sink_playing_A track_B ?w"
    using r pre by blast
  have f: "fst (play_cmd_enqueue env_ok 1 sink_playing_A track_B ?w) =
      (AddedToQueue 2 ''B'' ''https://b'' ''unknown'', False)"
    using r by (simp add: queue_of_def world_of_def track_B_def format_duration_def)
  have "snd (play_cmd_enqueue env_ok 1 sink_playing_A track_B ?w) =
      world_of [track_A, track_B] (Some sink_playing_A)"
    using busy by (simp add: play_cmd_enqueue_busy queue_of_def world_of_def set_queue_def)
  with f whole show ?thesis
    by (simp add: prod_eq_iff sounding_def sink_of_def world_of_def sink_playing_A_def vc_play_def)
qed

text \<open>Enqueue on a guild with no reachable sink.\<close>

lemma enqueue_no_sink_step:
  assumes "guilds w gid = Some g"
    and "voice_client g = None \<or> (\<exists>v. voice_client g = Some v \<and> \<not> is_connected v)"
    and "\<not> is_playing vc" and "\<not> is_paused vc"
  shows "snd (play_cmd_enqueue e gid vc song w) = set_queue gid [] w"
proof -
  let ?w = "set_queue gid (queue_of gid w @ [song]) w"
  have "guilds ?w gid = Some g" and "queue_of gid ?w \<noteq> []"
    using assms(1) by (simp_all add: set_queue_views)
  then have "start_next_song e gid ?w = set_queue gid [] ?w"
    using assms(2) by (rule sns_no_sink)
  then show ?thesis
    using assms(3,4) by (simp add: play_cmd_enqueue_idle set_queue_def)
qed

lemma enqueue_all_no_sink:
  assumes "voice_client g = None \<or> (\<exists>v. voice_client g = Some v \<and> \<not> is_connected v)"
    and "\<not> is_playing vc" and "\<not> is_paused vc"
  shows "guilds w gid = Some g \<Longrightarrow>
         enqueue_all e gid vc songs w = (if songs = [] then w else set_queue gid [] w)"
proof (induction songs arbitrary: w)
  case Nil
  then show ?case by (simp add: enqueue_all_def)
next
  case (Cons s songs)
  have step: "snd (play_cmd_enqueue e gid vc s w) = set_queue gid [] w"
    using Cons.prems assms by (rule enqueue_no_sink_step)
  have "guilds (set_queue gid [] w) gid = Some g"
    using Cons.prems by (simp add: set_queue_views)
  then have "enqueue_all e gid vc songs (set_queue gid [] w) =
      (if songs = [] then set_queue gid [] w else set_queue gid [] (set_queue gid [] w))"
    by (rule Cons.IH)
  then show ?case
    using step by (simp add: enqueue_all_def set_queue_def)
qed

text \<open>
  Claim C5, as the code has it.  For every sequence of enqueues on a guild whose voice
  client is absent or not connected, made through a reference to a voice client that is
  neither playing nor paused: playback never starts (the guild's voice client and the
  printed output are unchanged, and the sink is busy after exactly when it was before),
  no other guild's queue changes, but the queue does not accumulate the tracks.  Each
  enqueue runs \<^verbatim>\<open>start_next_song\<close>, which clears a queue with no connected sink, so after
  one or more enqueues the guild's queue is empty.
\<close>

theorem enqueue_without_sink_keeps_nothing:
  assumes "guilds w gid = Some g"
    and "voice_client g = None \<or> (\<exists>v. voice_client g = Some v \<and> \<not> is_connected v)"
    and "\<not> is_playing vc" and "\<not> is_paused vc"
  shows "(songs \<noteq> [] \<longrightarrow> queue_of gid (enqueue_all e gid vc songs w) = []) \<and>
         (\<forall>k. k \<noteq> gid \<longrightarrow> queue_of k (enqueue_all e gid vc songs w) = queue_of k w) \<and>
         guilds (enqueue_all e gid vc songs w) = guilds w \<and>
         console (enqueue_all e gid vc songs w) = console w \<and>
         (sink_busy gid (enqueue_all e gid vc songs w) \<longleftrightarrow> sink_busy gid w)"
  using enqueue_all_no_sink [OF assms(2-4) assms(1), of e songs]
  by (simp add: set_queue_views sink_busy_views)

text \<open>The statement above at a sample state.\<close>

theorem enqueue_without_sink_keeps_nothing_witness:
  "queue_of 1 (enqueue_all env_ok 1 sink_off [track_A, track_B] (world_of [] None)) = [] \<and>
   console (enqueue_all env_ok 1 sink_off [track_A, track_B] (world_of [] None)) = [] \<and>
   \<not> sink_busy 1 (enqueue_all env_ok 1 sink_off [track_A, track_B] (world_of [] None))"
proof -
  let ?w = "world_of [] None"
  let ?g = "\<lparr>name = ''home'', voice_client = None\<rparr>"
  have h1: "guilds ?w 1 = Some ?g"
    by (simp add: world_of_def)
  have h2: "voice_client ?g = None \<or> (\<exists>v. voice_client ?g = Some v \<and> \<not> is_connected v)"
    by simp
  have h3: "\<not> is_playing sink_off" and h4: "\<not> is_paused sink_off"
    by (simp_all add: sink_off_def connected_client_def)
  have c: "console ?w = []" and b: "\<not> sink_busy 1 ?w"
    by (simp_all add: world_of_def sink_busy_def sink_of_def)
  from enqueue_without_sink_keeps_nothing [OF h1 h2 h3 h4, of "[track_A, track_B]" env_ok] c b
  show ?thesis
    by simp
qed

text \<open>
  Claim C5 as stated fails at the first enqueue: guild 1 has no voice client and an
  empty queue, track A is enqueued, and afterwards the queue is empty instead of
  holding track A.
\<close>

theorem enqueue_without_sink_loses_track:
  "sink_of 1 (world_of [] None) = None \<and>
   queue_of 1 (world_of [] None) = [] \<and>
   queue_of 1 (snd (play_cmd_enqueue env_ok 1 sink_off track_A (world_of [] None))) = [] \<and>
   queue_of 1 (snd (play_cmd_enqueue env_ok 1 sink_off track_A (world_of [] None)))
     \<noteq> queue_of 1 (world_of [] None) @ [track_A]"
  by (simp add: play_cmd_enqueue_def start_next_song.simps sample_defs state_defs)

subsection \<open>Skip, stop and leave\<close>

lemma interaction_guild_Some:
  "i_guild i = Some gid \<Longrightarrow> guilds w gid = Some g \<Longrightarrow> interaction_guild i w = Some (gid, g)"
  by (simp add: interaction_guild_def)

text \<open>
  Claim C8.  \<^verbatim>\<open>skip_cmd\<close> never writes to \<^verbatim>\<open>music_queues\<close> and prints nothing.  When
  nothing is playing or paused in the guild of the interaction, the reply is not the
  success message, it is ephemeral, and the state is unchanged.  When the voice client
  is connected and playing or paused, the reply is the success message, the client is
  stopped, the queue is still as it was, and the queue advances only with the delivery
  of the completion signal: after it the queue is the old tail without the tracks the
  sink refuses to start.
\<close>

theorem skip_cmd_leaves_queue:
  "music_queues (snd (skip_cmd i w)) = music_queues w \<and>
   console (snd (skip_cmd i w)) = console w \<and>
   ((case i_guild i of None \<Rightarrow> True | Some gid \<Rightarrow> \<not> sink_busy gid w) \<longrightarrow>
      fst (fst (skip_cmd i w)) \<noteq> Skipped \<and> snd (fst (skip_cmd i w)) \<and> snd (skip_cmd i w) = w) \<and>
   (\<forall>gid vc. i_guild i = Some gid \<and> sink_of gid w = Some vc \<and> is_connected vc \<and>
        (is_playing vc \<or> is_paused vc) \<longrightarrow>
      fst (skip_cmd i w) = (Skipped, False) \<and>
      sink_of gid (snd (skip_cmd i w)) = Some (vc_stop vc) \<and>
      queue_of gid (snd (skip_cmd i w)) = queue_of gid w \<and>
      (\<forall>e error. queue_of gid (after_play e gid error (snd (skip_cmd i w)))
         = dropWhile (rejected e) (tl (queue_of gid w))))"
proof (intro conjI allI impI)
  show "music_queues (snd (skip_cmd i w)) = music_queues w"
    by (simp add: skip_cmd_def set_voice_client_views split: option.splits prod.splits)
  show "console (snd (skip_cmd i w)) = console w"
    by (simp add: skip_cmd_def set_voice_client_views split: option.splits prod.splits)
next
  assume idle: "case i_guild i of None \<Rightarrow> True | Some gid \<Rightarrow> \<not> sink_busy gid w"
  have "fst (skip_cmd i w) \<in> {(ServerOnly, True), (NotInVoiceChannel, True), (NothingPlaying, True)}
      \<and> snd (skip_cmd i w) = w"
    using idle
    by (auto simp: skip_cmd_def interaction_guild_def sink_busy_def sink_of_def
        split: option.splits)
  then show "fst (fst (skip_cmd i w)) \<noteq> Skipped" and "snd (fst (skip_cmd i w))"
    and "snd (skip_cmd i w) = w"
    by auto
next
  fix gid vc
  assume a: "i_guild i = Some gid \<and> sink_of gid w = Some vc \<and> is_connected vc \<and>
      (is_playing vc \<or> is_paused vc)"
  then obtain g where g: "guilds w gid = Some g" and vc: "voice_client g = Some vc"
    by (auto simp: sink_of_def split: option.splits)
  have r: "skip_cmd i w = ((Skipped, False), set_voice_client gid (Some (vc_stop vc)) w)"
    using a g vc by (auto simp: skip_cmd_def interaction_guild_def)
  show "fst (skip_cmd i w) = (Skipped, False)"
    by (simp add: r)
  show s: "sink_of gid (snd (skip_cmd i w)) = Some (vc_stop vc)"
    using g by (simp add: r sink_of_set_voice_client)
  show q: "queue_of gid (snd (skip_cmd i w)) = queue_of gid w"
    by (simp add: r set_voice_client_views)
  fix e error
  have "\<exists>v. sink_of gid (snd (skip_cmd i w)) = Some v \<and> is_connected v \<and>
      \<not> is_playing v \<and> \<not> is_paused v"
    using s a by (simp add: vc_stop_def)
  then show "queue_of gid (after_play e gid error (snd (skip_cmd i w)))
      = dropWhile (rejected e) (tl (queue_of gid w))"
    using after_play_idle_connected [of gid "snd (skip_cmd i w)" e error] q by simp
qed

text \<open>The statement above at a sample state.\<close>

theorem skip_cmd_leaves_queue_witness:
  "fst (skip_cmd in_guild_1 (world_of [track_A] (Some sink_idle))) = (NothingPlaying, True) \<and>
   snd (skip_cmd in_guild_1 (world_of [track_A] (Some sink_idle)))
     = world_of [track_A] (Some sink_idle) \<and>
   fst (skip_cmd in_guild_1 (world_of [track_A, track_B] (Some sink_playing_A)))
     = (Skipped, False) \<and>
   queue_of 1 (snd (skip_cmd in_guild_1 (world_of [track_A, track_B] (Some sink_playing_A))))
     = [track_A, track_B] \<and>
   queue_of 1 (after_play env_ok 1 None
      (snd (skip_cmd in_guild_1 (world_of [track_A, track_B] (Some sink_playing_A)))))
     = [track_B]"
proof -
  let ?idle = "world_of [track_A] (Some sink_idle)"
  let ?busy = "world_of [track_A, track_B] (Some sink_playing_A)"
  have i: "case i_guild in_guild_1 of None \<Rightarrow> True | Some gid \<Rightarrow> \<not> sink_busy gid ?idle"
    by (simp add: in_guild_1_def sink_busy_def sink_of_def world_of_def sink_idle_def
        connected_client_def)
  have m: "fst (skip_cmd in_guild_1 ?idle) = (NothingPlaying, True)"
    by (simp add: skip_cmd_def interaction_guild_def in_guild_1_def world_of_def sink_idle_def
        connected_client_def)
  have p: "i_guild in_guild_1 = Some 1 \<and> sink_of 1 ?busy = Some sink_playing_A \<and>
      is_connected sink_playing_A \<and> (is_playing sink_playing_A \<or> is_paused sink_playing_A)"
    by (simp add: in_guild_1_def sink_of_def world_of_def sink_playing_A_def vc_play_def
        connected_client_def)
  have q: "queue_of 1 ?busy = [track_A, track_B]"
    by (simp add: queue_of_def world_of_def)
  have ok: "\<not> rejected env_ok track_B"
    by (simp add: rejected_def env_ok_def)
  note idle = skip_cmd_leaves_queue [of in_guild_1 ?idle, THEN conjunct2, THEN conjunct2,
      THEN conjunct1, THEN mp, OF i]
  note busy = skip_cmd_leaves_queue [of in_guild_1 ?busy, THEN conjunct2, THEN conjunct2,
      THEN conjunct2, THEN spec, THEN spec, THEN mp, OF p]
  have "queue_of 1 (after_play env_ok 1 None (snd (skip_cmd in_guild_1 ?busy))) = [track_B]"
    using busy q ok by simp
  with idle busy m q show ?thesis
    by simp
qed

lemma stop_cmd_eq:
  assumes "i_guild i = Some gid" and "guilds w gid = Some g"
  shows "stop_cmd i w =
           ((Stopped, False),
            (case voice_client g of
               None \<Rightarrow> set_queue gid [] w
             | Some vc \<Rightarrow>
                 if is_playing vc \<or> is_paused vc
                 then set_voice_client gid (Some (vc_stop vc)) (set_queue gid [] w)
                 else set_queue gid [] w))"
  using assms
  by (simp add: stop_cmd_def interaction_guild_Some split_beta Let_def set_queue_get_queue
      split: option.splits)

lemma stop_cmd_views:
  assumes "i_guild i = Some gid" and "guilds w gid = Some g"
  shows "queue_of k (snd (stop_cmd i w)) = (if k = gid then [] else queue_of k w)"
    and "console (snd (stop_cmd i w)) = console w"
    and "music_queues (snd (stop_cmd i w)) gid = Some []"
    and "\<not> sink_busy gid (snd (stop_cmd i w))"
    and "\<exists>g'. guilds (snd (stop_cmd i w)) gid = Some g'"
    and "\<not> sink_busy gid w \<Longrightarrow> snd (stop_cmd i w) = set_queue gid [] w"
proof -
  show "queue_of k (snd (stop_cmd i w)) = (if k = gid then [] else queue_of k w)"
    by (simp add: stop_cmd_eq [OF assms] set_queue_views set_voice_client_views
        split: option.splits)
  show "console (snd (stop_cmd i w)) = console w"
    by (simp add: stop_cmd_eq [OF assms] set_queue_views set_voice_client_views
        split: option.splits)
  show "music_queues (snd (stop_cmd i w)) gid = Some []"
    by (simp add: stop_cmd_eq [OF assms] set_voice_client_views set_queue_def
        split: option.splits)
  have g: "guilds (set_queue gid [] w) gid = Some g"
    using assms(2) by (simp add: set_queue_views)
  show "\<not> sink_busy gid (snd (stop_cmd i w))"
    using assms(2) g
    by (simp add: stop_cmd_eq [OF assms] sink_busy_def sink_of_set_voice_client vc_stop_def
        sink_of_views split: option.splits) (simp add: sink_of_def)
  show "\<exists>g'. guilds (snd (stop_cmd i w)) gid = Some g'"
    using g
    by (simp add: stop_cmd_eq [OF assms] set_voice_client_def split: option.splits)
  show "snd (stop_cmd i w) = set_queue gid [] w" if "\<not> sink_busy gid w"
    using that assms(2)
    by (auto simp: stop_cmd_eq [OF assms] sink_busy_def sink_of_def split: option.splits)
qed

lemma set_queue_same: "music_queues w gid = Some q \<Longrightarrow> set_queue gid q w = w"
  by (simp add: set_queue_def fun_upd_idem)

text \<open>
  Claim C6.  For an interaction from a guild the bot knows, whatever the state before:
  \<^verbatim>\<open>stop_cmd\<close> answers with its success message, leaves the guild's queue empty and the
  sink neither playing nor paused, leaves the other guilds' queues and the printed
  output alone, and is idempotent: running it again on its result gives the same
  reply and the same state.  On a guild that is already idle with an empty queue the
  voice clients and all queues are as before, and with the queue registered the state
  is exactly the old state.  The completion signal that the stopped sink delivers finds
  the queue empty and leaves the guild idle with an empty queue.
\<close>

theorem stop_cmd_clears_and_idles:
  assumes "i_guild i = Some gid" and "guilds w gid = Some g"
  shows "fst (stop_cmd i w) = (Stopped, False) \<and>
         queue_of gid (snd (stop_cmd i w)) = [] \<and>
         \<not> sink_busy gid (snd (stop_cmd i w)) \<and>
         (\<forall>k. k \<noteq> gid \<longrightarrow> queue_of k (snd (stop_cmd i w)) = queue_of k w) \<and>
         console (snd (stop_cmd i w)) = console w \<and>
         stop_cmd i (snd (stop_cmd i w)) = stop_cmd i w \<and>
         (queue_of gid w = [] \<and> \<not> sink_busy gid w \<longrightarrow>
            guilds (snd (stop_cmd i w)) = guilds w \<and>
            (\<forall>k. queue_of k (snd (stop_cmd i w)) = queue_of k w)) \<and>
         (music_queues w gid = Some [] \<and> \<not> sink_busy gid w \<longrightarrow> snd (stop_cmd i w) = w) \<and>
         (\<forall>e error.
            queue_of gid (after_play e gid error (snd (stop_cmd i w))) = [] \<and>
            \<not> sink_busy gid (after_play e gid error (snd (stop_cmd i w))))"
proof -
  let ?w' = "snd (stop_cmd i w)"
  note v = stop_cmd_views [OF assms]
  have a: "fst (stop_cmd i w) = (Stopped, False)"
    by (simp add: stop_cmd_eq [OF assms])
  obtain g' where g': "guilds ?w' gid = Some g'"
    using v(5) by blast
  have again: "snd (stop_cmd i ?w') = set_queue gid [] ?w'"
    using stop_cmd_views(6) [OF assms(1) g'] v(4) by simp
  have "set_queue gid [] ?w' = ?w'"
    using v(3) by (rule set_queue_same)
  with again have "snd (stop_cmd i ?w') = ?w'"
    by simp
  moreover have "fst (stop_cmd i ?w') = (Stopped, False)"
    by (simp add: stop_cmd_eq [OF assms(1) g'])
  ultimately have idem: "stop_cmd i ?w' = stop_cmd i w"
    using a by (simp add: prod_eq_iff)
  have same: "queue_of gid w = [] \<and> \<not> sink_busy gid w \<longrightarrow>
      guilds ?w' = guilds w \<and> (\<forall>k. queue_of k ?w' = queue_of k w)"
    using v(6) by (auto simp: set_queue_views)
  have same': "music_queues w gid = Some [] \<and> \<not> sink_busy gid w \<longrightarrow> ?w' = w"
    using v(6) by (simp add: set_queue_same)
  have after: "\<forall>e error. queue_of gid (after_play e gid error ?w') = [] \<and>
      \<not> sink_busy gid (after_play e gid error ?w')"
  proof (intro allI)
    fix e error
    have q: "queue_of gid (after_play e gid error ?w') = []"
      using after_play_suffix [of gid e error ?w'] v(1) [of gid] by simp
    then have "\<not> sink_busy gid (after_play e gid error ?w')"
      using after_play_head_sounds [OF v(4), of e error] by blast
    with q show "queue_of gid (after_play e gid error ?w') = [] \<and>
        \<not> sink_busy gid (after_play e gid error ?w')"
      by simp
  qed
  from a v(1) [of gid] v(4) v(2) idem same same' after show ?thesis
    using v(1) by simp
qed

text \<open>The statement above at a sample state.\<close>

theorem stop_cmd_clears_and_idles_witness:
  "fst (stop_cmd in_guild_1 (world_of [track_A, track_B] (Some sink_playing_A)))
     = (Stopped, False) \<and>
   queue_of 1 (snd (stop_cmd in_guild_1 (world_of [track_A, track_B] (Some sink_playing_A)))) = [] \<and>
   \<not> sink_busy 1 (snd (stop_cmd in_guild_1 (world_of [track_A, track_B] (Some sink_playing_A)))) \<and>
   queue_of 1 (after_play env_ok 1 None
      (snd (stop_cmd in_guild_1 (world_of [track_A, track_B] (Some sink_playing_A))))) = [] \<and>
   snd (stop_cmd in_guild_1 (world_of [] (Some sink_idle))) = world_of [] (Some sink_idle)"
proof -
  let ?busy = "world_of [track_A, track_B] (Some sink_playing_A)"
  let ?idle = "world_of [] (Some sink_idle)"
  have i: "i_guild in_guild_1 = Some 1"
    by (simp add: in_guild_1_def)
  have g1: "guilds ?busy 1 = Some \<lparr>name = ''home'', voice_client = Some sink_playing_A\<rparr>"
    and g2: "guilds ?idle 1 = Some \<lparr>name = ''home'', voice_client = Some sink_idle\<rparr>"
    by (simp_all add: world_of_def)
  have rest: "music_queues ?idle 1 = Some [] \<and> \<not> sink_busy 1 ?idle"
    by (simp add: world_of_def sink_busy_def sink_of_def sink_idle_def connected_client_def)
  from stop_cmd_clears_and_idles [OF i g1] stop_cmd_clears_and_idles [OF i g2] rest
  show ?thesis
    by blast
qed

lemma leave_cmd_eq:
  assumes "i_guild i = Some gid" and "guilds w gid = Some g"
  shows "leave_cmd i w =
           (case voice_client g of
              None \<Rightarrow> ((NotConnected, True), set_queue gid [] w)
            | Some vc \<Rightarrow>
                if is_connected vc
                then ((LeftChannel, False), set_voice_client gid None (set_queue gid [] w))
                else ((NotConnected, True), set_queue gid [] w))"
  using assms
  by (simp add: leave_cmd_def interaction_guild_Some split_beta Let_def set_queue_get_queue
      split: option.splits)

lemma set_voice_client_twice:
  "set_voice_client gid v (set_voice_client gid v' w) = set_voice_client gid v w"
  by (simp add: set_voice_client_def split: option.splits)

text \<open>
  Claim C7, as the code has it.  For an interaction from a guild the bot knows,
  \<^verbatim>\<open>leave_cmd\<close> first clears the guild's queue, in every case; other guilds' queues and
  the printed output are unchanged.  With a connected voice client it answers that it
  left, and its state is the state of \<^verbatim>\<open>stop_cmd\<close> with the voice client disconnected:
  no sink, nothing playing.  With no connected voice client it reports that it is not
  connected, with an ephemeral message, and the clearing of the queue is its only
  change of state: the voice clients are as before.
\<close>

theorem leave_cmd_clears_queue_first:
  assumes "i_guild i = Some gid" and "guilds w gid = Some g"
  shows "queue_of gid (snd (leave_cmd i w)) = [] \<and>
         (\<forall>k. k \<noteq> gid \<longrightarrow> queue_of k (snd (leave_cmd i w)) = queue_of k w) \<and>
         console (snd (leave_cmd i w)) = console w \<and>
         ((\<exists>vc. voice_client g = Some vc \<and> is_connected vc) \<longrightarrow>
            fst (leave_cmd i w) = (LeftChannel, False) \<and>
            sink_of gid (snd (leave_cmd i w)) = None \<and>
            \<not> sink_busy gid (snd (leave_cmd i w)) \<and>
            snd (leave_cmd i w) = set_voice_client gid None (snd (stop_cmd i w))) \<and>
         (\<not> (\<exists>vc. voice_client g = Some vc \<and> is_connected vc) \<longrightarrow>
            fst (leave_cmd i w) = (NotConnected, True) \<and>
            snd (leave_cmd i w) = set_queue gid [] w \<and>
            guilds (snd (leave_cmd i w)) = guilds w)"
proof -
  let ?w' = "snd (leave_cmd i w)"
  have q: "queue_of k ?w' = (if k = gid then [] else queue_of k w)" for k
    by (simp add: leave_cmd_eq [OF assms] set_queue_views set_voice_client_views
        split: option.splits)
  have c: "console ?w' = console w"
    by (simp add: leave_cmd_eq [OF assms] set_queue_views set_voice_client_views
        split: option.splits)
  have g: "guilds (set_queue gid [] w) gid = Some g"
    using assms(2) by (simp add: set_queue_views)
  have on: "(\<exists>vc. voice_client g = Some vc \<and> is_connected vc) \<longrightarrow>
      fst (leave_cmd i w) = (LeftChannel, False) \<and> sink_of gid ?w' = None \<and>
      \<not> sink_busy gid ?w' \<and> ?w' = set_voice_client gid None (snd (stop_cmd i w))"
    using g
    by (auto simp: leave_cmd_eq [OF assms] stop_cmd_eq [OF assms] sink_busy_def
        sink_of_set_voice_client set_voice_client_twice)
  have off: "\<not> (\<exists>vc. voice_client g = Some vc \<and> is_connected vc) \<longrightarrow>
      fst (leave_cmd i w) = (NotConnected, True) \<and> ?w' = set_queue gid [] w \<and>
      guilds ?w' = guilds w"
    by (auto simp: leave_cmd_eq [OF assms] set_queue_views split: option.splits)
  have q1: "queue_of gid ?w' = []"
    by (simp add: q)
  have q2: "\<forall>k. k \<noteq> gid \<longrightarrow> queue_of k ?w' = queue_of k w"
    by (simp add: q)
  from q1 q2 c on off show ?thesis
    by blast
qed

text \<open>The statement above at a sample state.\<close>

theorem leave_cmd_clears_queue_first_witness:
  "leave_cmd in_guild_1 (world_of [track_A, track_B] (Some sink_playing_A)) =
     ((LeftChannel, False), world_of [] None) \<and>
   leave_cmd in_guild_1 (world_of [track_A] (Some sink_lost)) =
     ((NotConnected, True), world_of [] (Some sink_lost))"
proof -
  let ?on = "world_of [track_A, track_B] (Some sink_playing_A)"
  let ?off = "world_of [track_A] (Some sink_lost)"
  let ?g1 = "\<lparr>name = ''home'', voice_client = Some sink_playing_A\<rparr>"
  let ?g2 = "\<lparr>name = ''home'', voice_client = Some sink_lost\<rparr>"
  have i: "i_guild in_guild_1 = Some 1"
    by (simp add: in_guild_1_def)
  have g1: "guilds ?on 1 = Some ?g1" and g2: "guilds ?off 1 = Some ?g2"
    by (simp_all add: world_of_def)
  have c1: "\<exists>vc. voice_client ?g1 = Some vc \<and> is_connected vc"
    by (simp add: sink_playing_A_def vc_play_def connected_client_def)
  have c2: "\<not> (\<exists>vc. voice_client ?g2 = Some vc \<and> is_connected vc)"
    by (simp add: sink_lost_def)
  note on = leave_cmd_clears_queue_first [OF i g1, THEN conjunct2, THEN conjunct2,
      THEN conjunct2, THEN conjunct1, THEN mp, OF c1]
  note off = leave_cmd_clears_queue_first [OF i g2, THEN conjunct2, THEN conjunct2,
      THEN conjunct2, THEN conjunct2, THEN mp, OF c2]
  have "snd (leave_cmd in_guild_1 ?off) = world_of [] (Some sink_lost)"
    using off by (simp add: set_queue_def world_of_def)
  moreover have "snd (stop_cmd in_guild_1 ?on) = world_of [] (Some (vc_stop sink_playing_A))"
    by (subst stop_cmd_eq [OF i g1])
       (simp add: sink_playing_A_def vc_play_def set_queue_def set_voice_client_def world_of_def)
  then have "snd (leave_cmd in_guild_1 ?on) = world_of [] None"
    using on by (simp add: set_voice_client_def world_of_def)
  ultimately show ?thesis
    using on off by (simp add: prod_eq_iff)
qed

text \<open>
  Claim C7 as stated fails where no sink is connected and the queue is not empty: the
  voice client of guild 1 is not connected, the queue holds track A, \<^verbatim>\<open>leave_cmd\<close>
  reports that it is not connected, and the queue is empty afterwards, so the state has
  changed.
\<close>

theorem leave_cmd_not_connected_clears:
  "sink_of 1 (world_of [track_A] (Some sink_lost)) = Some sink_lost \<and>
   \<not> is_connected sink_lost \<and>
   queue_of 1 (world_of [track_A] (Some sink_lost)) = [track_A] \<and>
   fst (leave_cmd in_guild_1 (world_of [track_A] (Some sink_lost))) = (NotConnected, True) \<and>
   queue_of 1 (snd (leave_cmd in_guild_1 (world_of [track_A] (Some sink_lost)))) = [] \<and>
   snd (leave_cmd in_guild_1 (world_of [track_A] (Some sink_lost)))
     \<noteq> world_of [track_A] (Some sink_lost)"
proof -
  let ?w = "world_of [track_A] (Some sink_lost)"
  have r: "leave_cmd in_guild_1 ?w = ((NotConnected, True), set_queue 1 [] ?w)"
    by (simp add: leave_cmd_def interaction_guild_def in_guild_1_def world_of_def sink_lost_def
        get_queue_def set_queue_def)
  have q: "queue_of 1 ?w = [track_A]" "queue_of 1 (set_queue 1 [] ?w) = []"
    by (simp_all add: queue_of_def world_of_def set_queue_def)
  then have "set_queue 1 [] ?w \<noteq> ?w"
    by auto
  with r q show ?thesis
    by (simp add: sink_of_def world_of_def sink_lost_def)
qed

end
